theory Spec2Isabelle
  imports Main "HOL-Library.AList"
begin

section \<open>Python values\<close>

text \<open>
  Every value the script handles after a completion call is a decoded JSON value. A dict
  is an association list in insertion order (its keys are strings, each bound once); Python's
  \<open>None\<close> is \<open>JNull\<close>. JSON numbers with a fraction or an exponent (Python floats) are not
  part of this model. A \<open>str\<close> is a \<open>string\<close>.
\<close>

datatype json =
    JNull
  | JBool bool
  | JInt int
  | JStr string
  | JList "json list"
  | JObj "(string \<times> json) list"

text \<open>The exceptions that the script does not catch.\<close>

datatype py_exn = AttributeError | TypeError | KeyError

text \<open>Truth value of an object, as \<open>if x:\<close> and \<open>not x\<close> test it.\<close>

fun truthy :: "json \<Rightarrow> bool" where
  "truthy JNull = False"
| "truthy (JBool b) = b"
| "truthy (JInt i) = (i \<noteq> 0)"
| "truthy (JStr s) = (s \<noteq> [])"
| "truthy (JList xs) = (xs \<noteq> [])"
| "truthy (JObj kvs) = (kvs \<noteq> [])"

text \<open>\<open>s.startswith(p)\<close>, \<open>s.endswith(p)\<close>.\<close>

definition startswith :: "string \<Rightarrow> string \<Rightarrow> bool" where
  "startswith s p = (take (length p) s = p)"

definition endswith :: "string \<Rightarrow> string \<Rightarrow> bool" where
  "endswith s p = (length p \<le> length s \<and> drop (length s - length p) s = p)"


text \<open>
  \<open>d.get(k, default)\<close>: the value bound to the key when there is one (also when that value
  is \<open>None\<close>), the default otherwise. Only a dict has the method.
\<close>

fun py_get :: "json \<Rightarrow> string \<Rightarrow> json \<Rightarrow> py_exn + json" where
  "py_get (JObj kvs) k dflt = Inr (case map_of kvs k of None \<Rightarrow> dflt | Some v \<Rightarrow> v)"
| "py_get _ k dflt = Inl AttributeError"

text \<open>\<open>d[k]\<close> with a string key.\<close>

fun py_getitem :: "json \<Rightarrow> string \<Rightarrow> py_exn + json" where
  "py_getitem (JObj kvs) k = (case map_of kvs k of None \<Rightarrow> Inl KeyError | Some v \<Rightarrow> Inr v)"
| "py_getitem _ k = Inl TypeError"

text \<open>\<open>d[k] = v\<close>: an existing key keeps its place, a new key goes to the end.\<close>

fun py_setitem :: "json \<Rightarrow> string \<Rightarrow> json \<Rightarrow> py_exn + json" where
  "py_setitem (JObj kvs) k v = Inr (JObj (AList.update k v kvs))"
| "py_setitem _ k v = Inl TypeError"

text \<open>
  The objects a \<open>for\<close> loop visits: the elements of a list, the keys of a dict, the
  characters of a str; nothing else here is iterable.
\<close>

fun py_iter :: "json \<Rightarrow> py_exn + json list" where
  "py_iter (JList xs) = Inr xs"
| "py_iter (JObj kvs) = Inr (map (\<lambda>kv. JStr (fst kv)) kvs)"
| "py_iter (JStr s) = Inr (map (\<lambda>c. JStr [c]) s)"
| "py_iter _ = Inl TypeError"

text \<open>
  \<open>x.upper()\<close>: only a str has the method. What \<open>str.upper\<close> does to a text is the
  library's business (it maps every cased character of Unicode), so it is a parameter
  \<open>up\<close> of everything that calls it.
\<close>

fun py_upper :: "(string \<Rightarrow> string) \<Rightarrow> json \<Rightarrow> py_exn + string" where
  "py_upper up (JStr s) = Inr (up s)"
| "py_upper up _ = Inl AttributeError"

text \<open>
  An instance of \<open>str.upper\<close> for the witnesses and the concrete runs below: on a text of
  ASCII characters it is \<open>str.upper\<close>, and it is applied to such texts only.
\<close>

definition ascii_upper_char :: "char \<Rightarrow> char" where
  "ascii_upper_char c =
     (case map_of (zip ''abcdefghijklmnopqrstuvwxyz'' ''ABCDEFGHIJKLMNOPQRSTUVWXYZ'') c of
        None \<Rightarrow> c
      | Some u \<Rightarrow> u)"

definition ascii_upper :: "string \<Rightarrow> string" where
  "ascii_upper s = map ascii_upper_char s"

text \<open>
  Keys of the name dict. \<open>True\<close> and \<open>1\<close> (and \<open>False\<close> and \<open>0\<close>) are the same key;
  a list or a dict is unhashable, and \<open>x in d\<close> raises on it.
\<close>

datatype pykey = KNone | KNum int | KStr string

fun py_hash_key :: "json \<Rightarrow> py_exn + pykey" where
  "py_hash_key JNull = Inr KNone"
| "py_hash_key (JBool b) = Inr (KNum (if b then 1 else 0))"
| "py_hash_key (JInt i) = Inr (KNum i)"
| "py_hash_key (JStr s) = Inr (KStr s)"
| "py_hash_key (JList xs) = Inl TypeError"
| "py_hash_key (JObj kvs) = Inl TypeError"

text \<open>Decimal text of an integer, as an f-string formats it.\<close>

definition digit_char :: "nat \<Rightarrow> char" where
  "digit_char d = ''0123456789'' ! d"

fun str_nat :: "nat \<Rightarrow> string" where
  "str_nat n = (if n < 10 then [digit_char n] else str_nat (n div 10) @ [digit_char (n mod 10)])"

definition str_int :: "int \<Rightarrow> string" where
  "str_int i = (if i < 0 then CHR ''-'' # str_nat (nat (- i)) else str_nat (nat i))"

section \<open>What the user sees\<close>

text \<open>
  The graph handed to the rendering widget. A \<open>node_data\<close> is the dict under the
  \<open>data\<close> key of a node element, with the \<open>personality\<close> key present or not; an
  \<open>edge_data\<close> likewise for an edge element.
\<close>

record node_data =
  nd_id :: int
  nd_label :: string
  nd_name :: json
  nd_personality :: "json option"

record edge_data =
  ed_id :: string
  ed_label :: string
  ed_source :: int
  ed_target :: int

record elements =
  nodes :: "node_data list"
  edges :: "edge_data list"

record node_style =
  ns_label :: string
  ns_color :: string
  ns_caption :: string
  ns_icon :: string

record edge_style =
  es_label :: string
  es_caption :: string
  es_directed :: bool
  es_color :: string

text \<open>
  The calls into the page: \<open>st.error\<close>, \<open>st.warning\<close>, \<open>st.success\<close>,
  \<open>st.markdown\<close>, \<open>st.subheader\<close>, a metric (its label and the value shown before
  \<open>/10\<close>) and the graph widget with its arguments; the edge styles are built from a set
  of labels, so their order is not fixed and they are kept as a set.
\<close>

datatype ui_event =
    StError string
  | StWarning string
  | StSuccess string
  | StMarkdown string
  | StSubheader string
  | StMetric string json
  | StLinkAnalysis elements "node_style list" "edge_style set"

section \<open>The completion client\<close>

text \<open>The three back-ticks that fence a block, and the opening tag.\<close>

definition fence :: string where
  "fence = [CHR 0x60, CHR 0x60, CHR 0x60]"

definition fence_json :: string where
  "fence_json = fence @ ''json''"

text \<open>
  Lines 29 to 33 of \<open>call_gemini\<close>: \<open>s[7:]\<close> when the text starts with the tagged fence,
  then \<open>s[:-3]\<close> when what is left ends with a fence.
\<close>

definition strip_markdown :: "string \<Rightarrow> string" where
  "strip_markdown model_output_string =
     (let s1 = (if startswith model_output_string fence_json
                then drop 7 model_output_string else model_output_string);
          s2 = (if endswith s1 fence then take (length s1 - 3) s1 else s1)
      in s2)"


text \<open>
  What one call exchanged with the service, up to line 27: \<open>requests.post\<close> raised a
  \<open>RequestException\<close> (with its text), or a response came back with its status code,
  its body, and for the candidate path either the text found there or the
  \<open>KeyError\<close>/\<open>IndexError\<close> met on the way (its text and the printed body).
\<close>

datatype candidate = Missing string string | Text string

datatype exchange = Raised string | Answered int string candidate

text \<open>The four ways a call fails, and the message each returns.\<close>

datatype failure =
    StatusFailure int string
  | NetworkFailure string
  | DecodeFailure string string
  | FormatFailure string string

fun error_message :: "failure \<Rightarrow> string" where
  "error_message (StatusFailure status_code text) =
     ''Error: API call failed with status code '' @ str_int status_code @ ''. Response: '' @ text"
| "error_message (NetworkFailure e) = ''Error: Network request failed. '' @ e"
| "error_message (DecodeFailure raw e) =
     ''Error: Failed to decode JSON response from API. '' @ e @ ''.''"
| "error_message (FormatFailure e response_json) =
     ''Error: Unexpected API response format. '' @ e @ ''. Response: '' @ response_json"

text \<open>A call returns the parsed value and no error, or no value and an error message.\<close>

datatype gemini_result = Parsed json | Failed failure

fun returned :: "gemini_result \<Rightarrow> json \<times> string option" where
  "returned (Parsed v) = (v, None)"
| "returned (Failed f) = (JNull, Some (error_message f))"

text \<open>Only the handler of a decoding error writes to the page (line 40).\<close>

fun client_shown :: "gemini_result \<Rightarrow> ui_event list" where
  "client_shown (Failed (DecodeFailure raw e)) =
     [StError (''Failed to decode JSON. Raw text: '' @ raw)]"
| "client_shown _ = []"

text \<open>
  \<open>call_gemini\<close>, with \<open>json.loads\<close> as a parameter: it returns the decoded value or
  the text of the \<open>JSONDecodeError\<close> it raises.
\<close>

definition call_gemini :: "(string \<Rightarrow> string + json) \<Rightarrow> exchange \<Rightarrow> gemini_result" where
  "call_gemini loads x =
     (case x of
        Raised e \<Rightarrow> Failed (NetworkFailure e)
      | Answered status_code text cand \<Rightarrow>
          if status_code \<noteq> 200 then Failed (StatusFailure status_code text)
          else (case cand of
                  Missing e response_json \<Rightarrow> Failed (FormatFailure e response_json)
                | Text model_output_string \<Rightarrow>
                    (let s = strip_markdown model_output_string
                     in case loads s of
                          Inr v \<Rightarrow> Parsed v
                        | Inl e \<Rightarrow> Failed (DecodeFailure s e))))"

text \<open>A decoder for the witnesses below: it knows the empty list between white space.\<close>

definition is_space :: "char \<Rightarrow> bool" where
  "is_space c = (c = CHR '' '' \<or> c = CHR 0x09 \<or> c = CHR 0x0A \<or> c = CHR 0x0D)"

definition loads_list_only :: "string \<Rightarrow> string + json" where
  "loads_list_only s =
     (if filter (\<lambda>c. \<not> is_space c) s = ''[]'' then Inr (JList [])
      else Inl ''Expecting value'')"

section \<open>The projection\<close>

text \<open>
  Lines 142 to 152: the data of a new node. The label must be a str for \<open>upper\<close>; the
  \<open>personality\<close> key is there only for a person.
\<close>

definition node_data_of ::
  "(string \<Rightarrow> string) \<Rightarrow> json \<Rightarrow> json \<Rightarrow> int \<Rightarrow> py_exn + node_data" where
  "node_data_of up node node_name current_id =
     (case py_get node ''label'' (JStr ''ENTITY'') of
        Inl e \<Rightarrow> Inl e
      | Inr l \<Rightarrow>
          (case py_upper up l of
             Inl e \<Rightarrow> Inl e
           | Inr label \<Rightarrow>
               if label = ''PERSON'' then
                 (case py_get node ''personality'' (JStr []) of
                    Inl e \<Rightarrow> Inl e
                  | Inr p \<Rightarrow> Inr \<lparr>nd_id = current_id, nd_label = label, nd_name = node_name,
                                nd_personality = Some p\<rparr>)
               else Inr \<lparr>nd_id = current_id, nd_label = label, nd_name = node_name,
                         nd_personality = None\<rparr>))"

text \<open>
  The loop of lines 137 to 155 over the objects left to visit, with the name dict, the
  counter and the nodes made so far. \<open>not node_name\<close> is tested first, and only a name
  that is true is looked up in the dict.
\<close>

fun nodes_loop ::
  "(string \<Rightarrow> string) \<Rightarrow> json list \<Rightarrow> (pykey \<rightharpoonup> int) \<Rightarrow> int \<Rightarrow> node_data list
     \<Rightarrow> py_exn + ((pykey \<rightharpoonup> int) \<times> node_data list)" where
  "nodes_loop up [] node_name_to_id node_id_counter elements_nodes =
     Inr (node_name_to_id, elements_nodes)"
| "nodes_loop up (node # rest) node_name_to_id node_id_counter elements_nodes =
     (case py_get node ''name'' JNull of
        Inl e \<Rightarrow> Inl e
      | Inr node_name \<Rightarrow>
          if \<not> truthy node_name
          then nodes_loop up rest node_name_to_id node_id_counter elements_nodes
          else (case py_hash_key node_name of
                  Inl e \<Rightarrow> Inl e
                | Inr k \<Rightarrow>
                    if node_name_to_id k \<noteq> None
                    then nodes_loop up rest node_name_to_id node_id_counter elements_nodes
                    else (case node_data_of up node node_name node_id_counter of
                            Inl e \<Rightarrow> Inl e
                          | Inr node_data \<Rightarrow>
                              nodes_loop up rest (node_name_to_id(k \<mapsto> node_id_counter))
                                (node_id_counter + 1) (elements_nodes @ [node_data]))))"

definition node_styles :: "node_style list" where
  "node_styles =
     [\<lparr>ns_label = ''PERSON'', ns_color = ''#FF7F3E'', ns_caption = ''name'', ns_icon = ''person''\<rparr>,
      \<lparr>ns_label = ''ORGANIZATION'', ns_color = ''#2A629A'', ns_caption = ''name'', ns_icon = ''business''\<rparr>,
      \<lparr>ns_label = ''LOCATION'', ns_color = ''#2A629A'', ns_caption = ''name'', ns_icon = ''business''\<rparr>,
      \<lparr>ns_label = ''EVENT'', ns_color = ''#2A629A'', ns_caption = ''name'', ns_icon = ''business''\<rparr>,
      \<lparr>ns_label = ''CONCEPT'', ns_color = ''#2A629A'', ns_caption = ''name'', ns_icon = ''business''\<rparr>]"

text \<open>\<open>x in node_name_to_id\<close>.\<close>

definition py_in :: "json \<Rightarrow> (pykey \<rightharpoonup> int) \<Rightarrow> py_exn + bool" where
  "py_in x d = (case py_hash_key x of Inl e \<Rightarrow> Inl e | Inr k \<Rightarrow> Inr (d k \<noteq> None))"

text \<open>\<open>node_name_to_id[x]\<close>, read only after \<open>x in node_name_to_id\<close> held.\<close>

definition id_of :: "(pykey \<rightharpoonup> int) \<Rightarrow> json \<Rightarrow> py_exn + int" where
  "id_of d x =
     (case py_hash_key x of
        Inl e \<Rightarrow> Inl e
      | Inr k \<Rightarrow> (case d k of None \<Rightarrow> Inl KeyError | Some i \<Rightarrow> Inr i))"

text \<open>
  Lines 171 to 176: the three fields of an edge, then the test of the two names; the
  second name is looked up only when the first is in the dict. The result is the label,
  and the two ids when the edge is accepted.
\<close>

definition edge_fields ::
  "(string \<Rightarrow> string) \<Rightarrow> json \<Rightarrow> (pykey \<rightharpoonup> int)
     \<Rightarrow> py_exn + (string \<times> (int \<times> int) option)" where
  "edge_fields up edge node_name_to_id =
     (case py_get edge ''source'' JNull of
        Inl e \<Rightarrow> Inl e
      | Inr source_name \<Rightarrow>
     (case py_get edge ''target'' JNull of
        Inl e \<Rightarrow> Inl e
      | Inr target_name \<Rightarrow>
     (case py_get edge ''label'' (JStr ''RELATED_TO'') of
        Inl e \<Rightarrow> Inl e
      | Inr l \<Rightarrow>
     (case py_upper up l of
        Inl e \<Rightarrow> Inl e
      | Inr edge_label \<Rightarrow>
     (case py_in source_name node_name_to_id of
        Inl e \<Rightarrow> Inl e
      | Inr False \<Rightarrow> Inr (edge_label, None)
      | Inr True \<Rightarrow>
     (case py_in target_name node_name_to_id of
        Inl e \<Rightarrow> Inl e
      | Inr False \<Rightarrow> Inr (edge_label, None)
      | Inr True \<Rightarrow>
     (case id_of node_name_to_id source_name of
        Inl e \<Rightarrow> Inl e
      | Inr src \<Rightarrow>
     (case id_of node_name_to_id target_name of
        Inl e \<Rightarrow> Inl e
      | Inr tgt \<Rightarrow> Inr (edge_label, Some (src, tgt))))))))))"

text \<open>The loop of lines 170 to 186, with the counter, the edges and the labels so far.\<close>

fun edges_loop ::
  "(string \<Rightarrow> string) \<Rightarrow> json list \<Rightarrow> (pykey \<rightharpoonup> int) \<Rightarrow> int \<Rightarrow> edge_data list
     \<Rightarrow> string set \<Rightarrow> py_exn + (edge_data list \<times> string set)" where
  "edges_loop up [] node_name_to_id edge_id_counter elements_edges all_edge_labels =
     Inr (elements_edges, all_edge_labels)"
| "edges_loop up (edge # rest) node_name_to_id edge_id_counter elements_edges all_edge_labels =
     (case edge_fields up edge node_name_to_id of
        Inl e \<Rightarrow> Inl e
      | Inr (edge_label, None) \<Rightarrow>
          edges_loop up rest node_name_to_id edge_id_counter elements_edges all_edge_labels
      | Inr (edge_label, Some (src, tgt)) \<Rightarrow>
          edges_loop up rest node_name_to_id (edge_id_counter + 1)
            (elements_edges @
               [\<lparr>ed_id = ''e'' @ str_int edge_id_counter, ed_label = edge_label,
                 ed_source = src, ed_target = tgt\<rparr>])
            (insert edge_label all_edge_labels))"

definition edge_style_of :: "string \<Rightarrow> edge_style" where
  "edge_style_of label =
     \<lparr>es_label = label, es_caption = ''label'', es_directed = True, es_color = ''#888888''\<rparr>"

definition format_for_st_link_analysis ::
  "(string \<Rightarrow> string) \<Rightarrow> json \<Rightarrow> py_exn + (elements \<times> node_style list \<times> edge_style set)" where
  "format_for_st_link_analysis up llm_json_output =
     (case py_get llm_json_output ''nodes'' (JList []) of
        Inl e \<Rightarrow> Inl e
      | Inr ns \<Rightarrow>
     (case py_iter ns of
        Inl e \<Rightarrow> Inl e
      | Inr node_objs \<Rightarrow>
     (case nodes_loop up node_objs Map.empty 1 [] of
        Inl e \<Rightarrow> Inl e
      | Inr (node_name_to_id, elements_nodes) \<Rightarrow>
     (case py_get llm_json_output ''edges'' (JList []) of
        Inl e \<Rightarrow> Inl e
      | Inr es \<Rightarrow>
     (case py_iter es of
        Inl e \<Rightarrow> Inl e
      | Inr edge_objs \<Rightarrow>
     (case edges_loop up edge_objs node_name_to_id 1 [] {} of
        Inl e \<Rightarrow> Inl e
      | Inr (elements_edges, all_edge_labels) \<Rightarrow>
          Inr (\<lparr>nodes = elements_nodes, edges = elements_edges\<rparr>,
               node_styles, edge_style_of ` all_edge_labels)))))))"

section \<open>The pipeline\<close>

text \<open>
  The script from line 201 on: what runs once a file is uploaded, the button is pressed and
  the key is set. A prompt is kept as the builder that made it and the builder's
  arguments (the templates are fixed text around them); for step 4 the argument is the
  value that \<open>json.dumps\<close> serialises. A session holds the calls made to the service and
  what was written to the page, both in order. The spinners are left out.
\<close>

datatype prompt =
    Step1Prompt string
  | Step2Prompt json string
  | Step3Prompt "json list" string
  | Step4Prompt string json

record session =
  calls :: "prompt list"
  shown :: "ui_event list"

datatype ending = Completed | Stopped | Crashed py_exn

definition show_ui :: "ui_event \<Rightarrow> session \<Rightarrow> session" where
  "show_ui ev s = s\<lparr>shown := shown s @ [ev]\<rparr>"

text \<open>
  One call of \<open>call_gemini\<close> from the script: the prompt is recorded, whatever the client
  wrote to the page is added, and the pair it returned is handed back.
\<close>

definition ask :: "prompt \<Rightarrow> gemini_result \<Rightarrow> session \<Rightarrow> (json \<times> string option) \<times> session" where
  "ask p r s = (returned r, s\<lparr>calls := calls s @ [p], shown := shown s @ client_shown r\<rparr>)"

text \<open>\<open>if error:\<close> on the second component, and the component inside an f-string.\<close>

definition is_error :: "string option \<Rightarrow> bool" where
  "is_error error = (case error of None \<Rightarrow> False | Some m \<Rightarrow> m \<noteq> [])"

definition fmt :: "string option \<Rightarrow> string" where
  "fmt error = (case error of None \<Rightarrow> ''None'' | Some m \<Rightarrow> m)"

text \<open>Step 1 (lines 206 to 214); \<open>None\<close> stands for \<open>st.stop()\<close>.\<close>

definition step1 :: "string \<Rightarrow> gemini_result \<Rightarrow> session \<Rightarrow> json option \<times> session" where
  "step1 document_text r1 s =
     (case ask (Step1Prompt document_text) r1 s of
        ((nodes_list, error), s1) \<Rightarrow>
          if is_error error
          then (None, show_ui (StError (''Error in Step 1: '' @ fmt error)) s1)
          else if \<not> truthy nodes_list
          then (None, show_ui (StWarning ''No entities found in the document.'') s1)
          else (Some nodes_list, s1))"

text \<open>
  Step 2 (lines 218 to 223), over the objects left to visit; \<open>i\<close> is the position of
  the object in the list of step 1, and \<open>r2 i\<close> is what the call made for it returns.
\<close>

fun step2_loop ::
  "string \<Rightarrow> (nat \<Rightarrow> gemini_result) \<Rightarrow> nat \<Rightarrow> json list \<Rightarrow> json list \<Rightarrow> session
     \<Rightarrow> (py_exn + json list) \<times> session" where
  "step2_loop document_text r2 i [] final_nodes s = (Inr final_nodes, s)"
| "step2_loop document_text r2 i (node # rest) final_nodes s =
     (case py_get node ''label'' JNull of
        Inl e \<Rightarrow> (Inl e, s)
      | Inr l \<Rightarrow>
          if l = JStr ''PERSON'' then
            (case py_getitem node ''name'' of
               Inl e \<Rightarrow> (Inl e, s)
             | Inr person_name \<Rightarrow>
                 (case ask (Step2Prompt person_name document_text) (r2 i) s of
                    ((personality_json, p_error), s1) \<Rightarrow>
                      (case (if is_error p_error then Inr (JStr [])
                             else py_get personality_json ''personality'' (JStr [])) of
                         Inl e \<Rightarrow> (Inl e, s1)
                       | Inr p \<Rightarrow>
                           (case py_setitem node ''personality'' p of
                              Inl e \<Rightarrow> (Inl e, s1)
                            | Inr node' \<Rightarrow>
                                step2_loop document_text r2 (Suc i) rest
                                  (final_nodes @ [node']) s1))))
          else step2_loop document_text r2 (Suc i) rest (final_nodes @ [node]) s)"

definition step2 ::
  "string \<Rightarrow> (nat \<Rightarrow> gemini_result) \<Rightarrow> json \<Rightarrow> session \<Rightarrow> (py_exn + json list) \<times> session" where
  "step2 document_text r2 nodes_list s =
     (case py_iter nodes_list of
        Inl e \<Rightarrow> (Inl e, s)
      | Inr objs \<Rightarrow> step2_loop document_text r2 0 objs [] s)"

text \<open>\<open>[n["name"] for n in final_nodes]\<close>.\<close>

fun names_of :: "json list \<Rightarrow> py_exn + json list" where
  "names_of [] = Inr []"
| "names_of (n # ns) =
     (case py_getitem n ''name'' of
        Inl e \<Rightarrow> Inl e
      | Inr v \<Rightarrow> (case names_of ns of Inl e \<Rightarrow> Inl e | Inr vs \<Rightarrow> Inr (v # vs)))"

text \<open>Step 3 (lines 226 to 232): the value of \<open>final_edges\<close> after it.\<close>

definition step3 ::
  "string \<Rightarrow> gemini_result \<Rightarrow> json list \<Rightarrow> session \<Rightarrow> (py_exn + json) \<times> session" where
  "step3 document_text r3 final_nodes s =
     (case names_of final_nodes of
        Inl e \<Rightarrow> (Inl e, s)
      | Inr node_names \<Rightarrow>
          (case ask (Step3Prompt node_names document_text) r3 s of
             ((final_edges, error), s1) \<Rightarrow>
               if is_error error
               then (Inr (JList []), show_ui (StError (''Error in Step 3: '' @ fmt error)) s1)
               else (Inr final_edges, s1)))"

text \<open>Line 235.\<close>

definition llm_json_output_of :: "json list \<Rightarrow> json \<Rightarrow> json" where
  "llm_json_output_of final_nodes final_edges =
     JObj [(''nodes'', JList final_nodes), (''edges'', final_edges)]"

text \<open>
  Step 4 (lines 237 to 256). The subheader is kept without its leading pictograph.
\<close>

definition step4 ::
  "string \<Rightarrow> gemini_result \<Rightarrow> json \<Rightarrow> session \<Rightarrow> (py_exn + unit) \<times> session" where
  "step4 document_text r4 llm_json_output s =
     (case ask (Step4Prompt document_text llm_json_output) r4 (show_ui (StMarkdown ''---'') s) of
        ((evaluation_json, v_error), s1) \<Rightarrow>
          (let s2 = show_ui (StSubheader ''Extraction Quality Analysis'') s1 in
           if is_error v_error
           then (Inr (), show_ui (StWarning (''Warning: The evaluation step failed. '' @ fmt v_error)) s2)
           else (case py_get evaluation_json ''correctness_score'' (JInt 0) of
                   Inl e \<Rightarrow> (Inl e, s2)
                 | Inr correctness \<Rightarrow>
                     (case py_get evaluation_json ''completeness_score'' (JInt 0) of
                        Inl e \<Rightarrow> (Inl e, s2)
                      | Inr completeness \<Rightarrow>
                          (Inr (), show_ui (StMetric ''Completeness Score'' completeness)
                                     (show_ui (StMetric ''Correctness Score'' correctness) s2))))))"

text \<open>
  Lines 258 to 267: the projection, the summary line and the widget. What the widget
  does with the graph, and the message shown if it raises, are outside the model.
\<close>

definition render :: "(string \<Rightarrow> string) \<Rightarrow> json \<Rightarrow> session \<Rightarrow> ending \<times> session" where
  "render up llm_json_output s =
     (let s1 = show_ui (StMarkdown ''---'') s in
      case format_for_st_link_analysis up llm_json_output of
        Inl e \<Rightarrow> (Crashed e, s1)
      | Inr (els, node_style_objs, edge_style_objs) \<Rightarrow>
          (Completed,
           show_ui (StLinkAnalysis els node_style_objs edge_style_objs)
             (show_ui (StSuccess (''Graph generation complete! ''
                                  @ str_int (int (length (nodes els))) @ '' nodes, ''
                                  @ str_int (int (length (edges els))) @ '' edges.'')) s1)))"

definition pipeline ::
  "(string \<Rightarrow> string) \<Rightarrow> string \<Rightarrow> gemini_result \<Rightarrow> (nat \<Rightarrow> gemini_result) \<Rightarrow> gemini_result
     \<Rightarrow> gemini_result \<Rightarrow> ending \<times> session" where
  "pipeline up document_text r1 r2 r3 r4 =
     (case step1 document_text r1 \<lparr>calls = [], shown = []\<rparr> of
        (None, s1) \<Rightarrow> (Stopped, s1)
      | (Some nodes_list, s1) \<Rightarrow>
     (case step2 document_text r2 nodes_list s1 of
        (Inl e, s2) \<Rightarrow> (Crashed e, s2)
      | (Inr final_nodes, s2) \<Rightarrow>
     (case step3 document_text r3 final_nodes s2 of
        (Inl e, s3) \<Rightarrow> (Crashed e, s3)
      | (Inr final_edges, s3) \<Rightarrow>
     (case step4 document_text r4 (llm_json_output_of final_nodes final_edges) s3 of
        (Inl e, s4) \<Rightarrow> (Crashed e, s4)
      | (Inr u, s4) \<Rightarrow> render up (llm_json_output_of final_nodes final_edges) s4))))"

section \<open>Shapes of the data, and the specification's words\<close>

text \<open>
  The field of an object under a key, when the object is a dict that has the key.
\<close>

definition field :: "json \<Rightarrow> string \<Rightarrow> json option" where
  "field obj k = (case obj of JObj kvs \<Rightarrow> map_of kvs k | _ \<Rightarrow> None)"

fun is_dict :: "json \<Rightarrow> bool" where
  "is_dict (JObj kvs) = True"
| "is_dict _ = False"

fun is_str :: "json \<Rightarrow> bool" where
  "is_str (JStr s) = True"
| "is_str _ = False"

fun hashable :: "json \<Rightarrow> bool" where
  "hashable (JList xs) = False"
| "hashable (JObj kvs) = False"
| "hashable _ = True"

definition absent_or :: "(json \<Rightarrow> bool) \<Rightarrow> json option \<Rightarrow> bool" where
  "absent_or P x = (case x of None \<Rightarrow> True | Some v \<Rightarrow> P v)"

text \<open>
  An entity object that the projection can read: a dict whose name, when it has one, is
  null, a boolean, a number or a string, and whose label, when it has one, is a string.
  A relationship object likewise, for its source, its target and its label.
\<close>

definition node_ok :: "json \<Rightarrow> bool" where
  "node_ok n = (is_dict n \<and> absent_or hashable (field n ''name'') \<and> absent_or is_str (field n ''label''))"

definition edge_ok :: "json \<Rightarrow> bool" where
  "edge_ok e = (is_dict e \<and> absent_or hashable (field e ''source'')
                \<and> absent_or hashable (field e ''target'') \<and> absent_or is_str (field e ''label''))"

text \<open>The name of an entity (null when it has none) and the dict key a name stands for.\<close>

definition name_of :: "json \<Rightarrow> json" where
  "name_of n = (case field n ''name'' of None \<Rightarrow> JNull | Some v \<Rightarrow> v)"

definition key_of :: "json \<Rightarrow> pykey" where
  "key_of v = (case py_hash_key v of Inl e \<Rightarrow> KNone | Inr k \<Rightarrow> k)"

text \<open>
  The specification's words for the entities the projection accepts: an entity with an
  empty name is skipped; the first entity of a name is kept, and every later entity of
  the same name is dropped.
\<close>

fun first_occurrences :: "json list \<Rightarrow> json list" where
  "first_occurrences [] = []"
| "first_occurrences (n # ns) =
     (if truthy (name_of n)
      then n # first_occurrences (filter (\<lambda>n'. key_of (name_of n') \<noteq> key_of (name_of n)) ns)
      else first_occurrences ns)"

text \<open>
  The specification's words for a node: the label in upper case (of \<open>ENTITY\<close> without one),
  and a personality only for a person (the empty string without one).
\<close>

definition label_of :: "(string \<Rightarrow> string) \<Rightarrow> json \<Rightarrow> string" where
  "label_of up n = up (case field n ''label'' of Some (JStr l) \<Rightarrow> l | _ \<Rightarrow> ''ENTITY'')"

definition node_of :: "(string \<Rightarrow> string) \<Rightarrow> int \<Rightarrow> json \<Rightarrow> node_data" where
  "node_of up i n =
     \<lparr>nd_id = i, nd_label = label_of up n, nd_name = name_of n,
      nd_personality =
        (if label_of up n = ''PERSON''
         then Some (case field n ''personality'' of None \<Rightarrow> JStr [] | Some p \<Rightarrow> p)
         else None)\<rparr>"

text \<open>
  The specification's words for an edge: accepted when both names have an id, the label in
  upper case (\<open>RELATED_TO\<close> without one), the id \<open>e\<close> followed by its number.
\<close>

definition source_of :: "json \<Rightarrow> json" where
  "source_of e = (case field e ''source'' of None \<Rightarrow> JNull | Some v \<Rightarrow> v)"

definition target_of :: "json \<Rightarrow> json" where
  "target_of e = (case field e ''target'' of None \<Rightarrow> JNull | Some v \<Rightarrow> v)"

definition edge_label_of :: "(string \<Rightarrow> string) \<Rightarrow> json \<Rightarrow> string" where
  "edge_label_of up e = up (case field e ''label'' of Some (JStr l) \<Rightarrow> l | _ \<Rightarrow> ''RELATED_TO'')"

definition has_id :: "(pykey \<rightharpoonup> int) \<Rightarrow> json \<Rightarrow> bool" where
  "has_id m x = (m (key_of x) \<noteq> None)"

definition edge_accepted :: "(pykey \<rightharpoonup> int) \<Rightarrow> json \<Rightarrow> bool" where
  "edge_accepted m e = (has_id m (source_of e) \<and> has_id m (target_of e))"

definition the_id :: "(pykey \<rightharpoonup> int) \<Rightarrow> json \<Rightarrow> int" where
  "the_id m x = (case m (key_of x) of None \<Rightarrow> 0 | Some i \<Rightarrow> i)"

definition edge_of :: "(string \<Rightarrow> string) \<Rightarrow> (pykey \<rightharpoonup> int) \<Rightarrow> int \<Rightarrow> json \<Rightarrow> edge_data" where
  "edge_of up m i e =
     \<lparr>ed_id = ''e'' @ str_int i, ed_label = edge_label_of up e,
      ed_source = the_id m (source_of e), ed_target = the_id m (target_of e)\<rparr>"

text \<open>Numbering a list from a first number on.\<close>

fun number_from :: "int \<Rightarrow> 'a list \<Rightarrow> (int \<times> 'a) list" where
  "number_from c [] = []"
| "number_from c (x # xs) = (c, x) # number_from (c + 1) xs"

text \<open>The name dict that holds the numbered entities: each name, as a key, to its number.\<close>

definition ids_of :: "(int \<times> json) list \<Rightarrow> (pykey \<rightharpoonup> int)" where
  "ids_of ps = map_of (map (\<lambda>(i, n). (key_of (name_of n), i)) ps)"

text \<open>
  An entity of a run: a dict with a name, which is a string, and a label, which is a
  string. A reply to a personality call or to the evaluation call that the script can read:
  a failure, or a parsed dict.
\<close>

definition entity :: "json \<Rightarrow> bool" where
  "entity n = (is_dict n \<and> (case field n ''name'' of Some (JStr s) \<Rightarrow> True | _ \<Rightarrow> False)
               \<and> (case field n ''label'' of Some (JStr l) \<Rightarrow> True | _ \<Rightarrow> False))"

fun reply_ok :: "gemini_result \<Rightarrow> bool" where
  "reply_ok (Failed f) = True"
| "reply_ok (Parsed (JObj kvs)) = True"
| "reply_ok (Parsed _) = False"

text \<open>The test of step 2 on the label of an entity.\<close>

definition is_person :: "json \<Rightarrow> bool" where
  "is_person n = (field n ''label'' = Some (JStr ''PERSON''))"

text \<open>
  The specification's words for step 2: a person gets the personality of the reply, the
  empty string when the call failed or the reply has none; any other entity is kept as
  it is.
\<close>

definition personality_of_reply :: "gemini_result \<Rightarrow> json" where
  "personality_of_reply r =
     (case r of
        Failed f \<Rightarrow> JStr []
      | Parsed v \<Rightarrow> (case field v ''personality'' of None \<Rightarrow> JStr [] | Some p \<Rightarrow> p))"

definition with_personality :: "json \<Rightarrow> json \<Rightarrow> json" where
  "with_personality n p = (case n of JObj kvs \<Rightarrow> JObj (AList.update ''personality'' p kvs) | _ \<Rightarrow> n)"

definition enriched :: "(nat \<Rightarrow> gemini_result) \<Rightarrow> nat \<Rightarrow> json \<Rightarrow> json" where
  "enriched r2 i n =
     (if field n ''label'' = Some (JStr ''PERSON'')
      then with_personality n (personality_of_reply (r2 i)) else n)"

section \<open>Example data\<close>

text \<open>
  Entities and relationships for the witnesses: a name that comes twice, an empty name, a
  missing name, a missing label; a relationship to a name that is no entity, and one
  without a label.
\<close>

definition person :: "string \<Rightarrow> json" where
  "person name = JObj [(''name'', JStr name), (''label'', JStr ''PERSON'')]"

definition example_nodes :: "json list" where
  "example_nodes =
     [person ''Alice'',
      JObj [(''name'', JStr []), (''label'', JStr ''CONCEPT'')],
      JObj [(''name'', JStr ''Alice''), (''label'', JStr ''LOCATION'')],
      JObj [(''label'', JStr ''EVENT'')],
      JObj [(''name'', JStr ''Bob'')]]"

definition example_edges :: "json list" where
  "example_edges =
     [JObj [(''source'', JStr ''Alice''), (''label'', JStr ''met''), (''target'', JStr ''Zed'')],
      JObj [(''source'', JStr ''Alice''), (''target'', JStr ''Bob'')]]"

text \<open>The entities of a run, and a call that failed.\<close>

definition example_entities :: "json list" where
  "example_entities =
     [person ''Alice'', JObj [(''name'', JStr ''Acme Corp''), (''label'', JStr ''ORGANIZATION'')]]"

definition timed_out :: gemini_result where
  "timed_out = Failed (NetworkFailure ''timed out'')"

text \<open>A reply to the evaluation call.\<close>

definition scores :: gemini_result where
  "scores = Parsed (JObj [(''correctness_score'', JInt 9), (''completeness_score'', JInt 8)])"

text \<open>
  What the projection checks of an edge: its two ends are ids in the name dict, and its
  label is the upper case of some text.
\<close>

definition edge_checked :: "(string \<Rightarrow> string) \<Rightarrow> (pykey \<rightharpoonup> int) \<Rightarrow> edge_data \<Rightarrow> bool" where
  "edge_checked up m d = (ed_source d \<in> ran m \<and> ed_target d \<in> ran m \<and> (\<exists>t. ed_label d = up t))"

section \<open>Properties of the completion client\<close>

lemma startswith_append [simp]: "startswith (p @ t) p"
  by (simp add: startswith_def)

lemma endswith_append [simp]: "endswith (t @ p) p"
  by (simp add: endswith_def)

lemma length_fence [simp]: "length fence = 3"
  by (simp add: fence_def)

lemma length_fence_json [simp]: "length fence_json = 7"
  by (simp add: fence_json_def)

lemma strip_markdown_prefix:
  "strip_markdown (fence_json @ t) = (if endswith t fence then take (length t - 3) t else t)"
  by (simp add: strip_markdown_def)

lemma strip_markdown_no_prefix:
  "\<not> startswith s fence_json \<Longrightarrow>
     strip_markdown s = (if endswith s fence then take (length s - 3) s else s)"
  by (simp add: strip_markdown_def)

lemma strip_markdown_fenced:
  "strip_markdown (fence_json @ CHR 0x0A # t @ CHR 0x0A # fence) = CHR 0x0A # t @ [CHR 0x0A]"
proof -
  have "endswith ((CHR 0x0A # t @ [CHR 0x0A]) @ fence) fence"
    by (rule endswith_append)
  then have e: "endswith (CHR 0x0A # t @ CHR 0x0A # fence) fence"
    by simp
  have "strip_markdown (fence_json @ CHR 0x0A # t @ CHR 0x0A # fence) =
        take (length (CHR 0x0A # t @ CHR 0x0A # fence) - 3) (CHR 0x0A # t @ CHR 0x0A # fence)"
    using e by (simp only: strip_markdown_prefix if_True)
  then show ?thesis by simp
qed

lemma startswith_fence_take:
  assumes "startswith s fence" and "6 \<le> length s"
  shows "startswith (take (length s - 3) s) fence"
proof -
  from assms(2) have "min 3 (length s - 3) = 3" by simp
  with assms(1) show ?thesis by (simp add: startswith_def)
qed

text \<open>
  Claim C10, as amended. The two markers are stripped independently. A text that begins
  with the tagged fence loses those seven characters whether or not it ends with a fence; a
  text that ends with a fence loses those three characters whether or not it begins with
  the tagged fence; a text without the tagged fence at its start loses nothing at its
  start, only a fence at its end. So a text of six characters or more that opens with a
  bare fence still opens with it afterwards. (For a shorter one see the counterexample
  after the witness.)
\<close>

theorem strip_markdown_independent:
  "(\<not> endswith t fence \<longrightarrow> strip_markdown (fence_json @ t) = t)
   \<and> (endswith t fence \<longrightarrow> strip_markdown (fence_json @ t) = take (length t - 3) t)
   \<and> (\<not> startswith (u @ fence) fence_json \<longrightarrow> strip_markdown (u @ fence) = u)
   \<and> (\<not> startswith s fence_json \<longrightarrow>
        strip_markdown s = (if endswith s fence then take (length s - 3) s else s))
   \<and> (startswith s fence \<and> \<not> startswith s fence_json \<and> 6 \<le> length s \<longrightarrow>
        startswith (strip_markdown s) fence)"
proof (intro conjI impI)
  assume "\<not> endswith t fence"
  then show "strip_markdown (fence_json @ t) = t"
    by (simp add: strip_markdown_prefix)
next
  assume "endswith t fence"
  then show "strip_markdown (fence_json @ t) = take (length t - 3) t"
    by (simp add: strip_markdown_prefix)
next
  assume "\<not> startswith (u @ fence) fence_json"
  then show "strip_markdown (u @ fence) = u"
    by (simp add: strip_markdown_no_prefix)
next
  assume "\<not> startswith s fence_json"
  then show "strip_markdown s = (if endswith s fence then take (length s - 3) s else s)"
    by (rule strip_markdown_no_prefix)
next
  assume a: "startswith s fence \<and> \<not> startswith s fence_json \<and> 6 \<le> length s"
  then have "strip_markdown s = (if endswith s fence then take (length s - 3) s else s)"
    by (simp add: strip_markdown_no_prefix)
  with a show "startswith (strip_markdown s) fence"
    by (simp add: startswith_fence_take)
qed

theorem strip_markdown_independent_witness:
  "strip_markdown (fence_json @ ''{}'') = ''{}''
   \<and> strip_markdown (fence_json @ ''[]'' @ fence) = take (length (''[]'' @ fence) - 3) (''[]'' @ fence)
   \<and> strip_markdown (''{}'' @ fence) = ''{}''
   \<and> startswith (strip_markdown (fence @ ''{}'' @ fence)) fence"
proof -
  have h1: "\<not> endswith ''{}'' fence"
    by (simp add: endswith_def fence_def)
  have h2: "endswith (''[]'' @ fence) fence"
    by (rule endswith_append)
  have h3: "\<not> startswith (''{}'' @ fence) fence_json"
    by (simp add: startswith_def fence_json_def fence_def)
  have h4: "startswith (fence @ ''{}'' @ fence) fence
            \<and> \<not> startswith (fence @ ''{}'' @ fence) fence_json
            \<and> 6 \<le> length (fence @ ''{}'' @ fence)"
    by (simp add: startswith_def fence_json_def fence_def)
  note t = strip_markdown_independent [of "''{}''" "''{}''" "fence @ ''{}'' @ fence"]
  note t' = strip_markdown_independent [of "''[]'' @ fence" "''{}''" "fence @ ''{}'' @ fence"]
  from t h1 have c1: "strip_markdown (fence_json @ ''{}'') = ''{}''" by blast
  from t' h2 have c2: "strip_markdown (fence_json @ ''[]'' @ fence) =
      take (length (''[]'' @ fence) - 3) (''[]'' @ fence)" by blast
  from t h3 have c3: "strip_markdown (''{}'' @ fence) = ''{}''" by blast
  from t h4 have c4: "startswith (strip_markdown (fence @ ''{}'' @ fence)) fence" by blast
  from c1 c2 c3 c4 show ?thesis by blast
qed

text \<open>
  Claim C10 as it was stated fails on the text that is a bare fence and nothing else: it
  opens with a fence without the tag, the test of the end of the text takes its three
  characters, and nothing of the opening fence is left.
\<close>

theorem bare_fence_counterexample:
  "startswith fence fence \<and> \<not> startswith fence fence_json
   \<and> strip_markdown fence = [] \<and> \<not> startswith (strip_markdown fence) fence"
  by (simp add: strip_markdown_def startswith_def endswith_def fence_json_def fence_def)

text \<open>
  Claim C7. Let the decoder skip a line feed before and after a text it accepts, and accept
  no text that begins with the tagged fence or ends with a fence (a JSON text begins and
  ends with white space, a bracket, a brace, a quote, a digit or a letter). Then for every
  text the decoder accepts, the call whose candidate text is that text between
  the opening line and the closing line of a fenced block returns the same parsed value,
  with no error, as the call whose candidate text is the text itself.
\<close>

theorem fenced_payload_parses_identically:
  assumes ws: "\<And>s v. loads s = Inr v \<Longrightarrow> loads (CHR 0x0A # s @ [CHR 0x0A]) = Inr v"
    and nofence: "\<And>s v. loads s = Inr v \<Longrightarrow> \<not> startswith s fence_json \<and> \<not> endswith s fence"
    and valid: "loads t = Inr v"
  shows "call_gemini loads (Answered 200 body1 (Text (fence_json @ CHR 0x0A # t @ CHR 0x0A # fence)))
           = call_gemini loads (Answered 200 body2 (Text t))
         \<and> call_gemini loads (Answered 200 body2 (Text t)) = Parsed v"
proof -
  have plain: "strip_markdown t = t"
    using nofence [OF valid] by (simp add: strip_markdown_no_prefix)
  have r2: "call_gemini loads (Answered 200 body2 (Text t)) = Parsed v"
    by (simp add: call_gemini_def plain valid)
  have "loads (CHR 0x0A # t @ [CHR 0x0A]) = Inr v"
    by (rule ws [OF valid])
  then have r1: "call_gemini loads
      (Answered 200 body1 (Text (fence_json @ CHR 0x0A # t @ CHR 0x0A # fence))) = Parsed v"
    by (simp add: call_gemini_def strip_markdown_fenced)
  from r1 r2 show ?thesis by simp
qed

lemma loads_list_only_ws:
  "loads_list_only s = Inr v \<Longrightarrow> loads_list_only (CHR 0x0A # s @ [CHR 0x0A]) = Inr v"
  by (simp add: loads_list_only_def is_space_def split: if_splits)

lemma filter_fence: "filter (\<lambda>c. \<not> is_space c) fence = fence"
  by (simp add: fence_def is_space_def)

lemma loads_list_only_nofence:
  assumes "loads_list_only s = Inr v"
  shows "\<not> startswith s fence_json \<and> \<not> endswith s fence"
proof -
  from assms have f: "filter (\<lambda>c. \<not> is_space c) s = ''[]''"
    by (simp add: loads_list_only_def split: if_splits)
  have "\<not> startswith s fence_json"
  proof
    assume "startswith s fence_json"
    then have "s = fence_json @ drop 7 s"
      by (metis append_take_drop_id length_fence_json startswith_def)
    then have "filter (\<lambda>c. \<not> is_space c) s =
               filter (\<lambda>c. \<not> is_space c) fence_json @ filter (\<lambda>c. \<not> is_space c) (drop 7 s)"
      by (metis filter_append)
    with f show False
      by (simp add: fence_json_def fence_def is_space_def)
  qed
  moreover have "\<not> endswith s fence"
  proof
    assume "endswith s fence"
    then have "s = take (length s - 3) s @ fence"
      by (metis append_take_drop_id length_fence endswith_def)
    then have "filter (\<lambda>c. \<not> is_space c) s =
               filter (\<lambda>c. \<not> is_space c) (take (length s - 3) s) @ fence"
      by (metis filter_append filter_fence)
    with f show False
      by (simp add: fence_def append_eq_Cons_conv)
  qed
  ultimately show ?thesis by simp
qed

theorem fenced_payload_parses_identically_witness:
  "call_gemini loads_list_only
       (Answered 200 [] (Text (fence_json @ CHR 0x0A # ''[ ]'' @ CHR 0x0A # fence)))
     = call_gemini loads_list_only (Answered 200 [] (Text ''[ ]''))
   \<and> call_gemini loads_list_only (Answered 200 [] (Text ''[ ]'')) = Parsed (JList [])"
proof -
  have v: "loads_list_only ''[ ]'' = Inr (JList [])"
    by (simp add: loads_list_only_def is_space_def)
  show ?thesis
    by (rule fenced_payload_parses_identically
          [of loads_list_only, OF loads_list_only_ws loads_list_only_nofence v])
qed

section \<open>Properties of the projection\<close>

lemma py_get_dict: "is_dict n \<Longrightarrow> py_get n k d = Inr (case field n k of None \<Rightarrow> d | Some v \<Rightarrow> v)"
  by (cases n) (simp_all add: field_def)

lemma py_hash_key_hashable: "hashable v \<Longrightarrow> py_hash_key v = Inr (key_of v)"
  by (cases v) (simp_all add: key_of_def)


lemma node_ok_name: "node_ok n \<Longrightarrow> py_get n ''name'' JNull = Inr (name_of n)"
  by (simp add: node_ok_def py_get_dict name_of_def)

lemma node_ok_hash: "node_ok n \<Longrightarrow> py_hash_key (name_of n) = Inr (key_of (name_of n))"
  by (rule py_hash_key_hashable)
     (auto simp: node_ok_def name_of_def absent_or_def split: option.splits)


lemma node_ok_data: "node_ok n \<Longrightarrow> node_data_of up n (name_of n) c = Inr (node_of up c n)"
  apply (cases n)
  apply (simp_all add: node_ok_def)
  apply (auto simp: node_data_of_def node_of_def label_of_def field_def absent_or_def
              split: option.splits json.splits)
  done

lemma node_of_name [simp]: "nd_name (node_of up c n) = name_of n"
  by (simp add: node_of_def)

lemma nodes_loop_step:
  assumes "node_ok n"
  shows "nodes_loop up (n # rest) m c acc =
     (if \<not> truthy (name_of n) \<or> m (key_of (name_of n)) \<noteq> None
      then nodes_loop up rest m c acc
      else nodes_loop up rest (m(key_of (name_of n) \<mapsto> c)) (c + 1) (acc @ [node_of up c n]))"
  using assms by (simp add: node_ok_name node_ok_hash node_ok_data)

declare nodes_loop.simps(2) [simp del]

lemma nodes_loop_skip:
  assumes "\<forall>n\<in>set ns. node_ok n" and "\<forall>k\<in>S. m k \<noteq> None"
  shows "nodes_loop up (filter (\<lambda>n. key_of (name_of n) \<notin> S) ns) m c acc = nodes_loop up ns m c acc"
  using assms
proof (induction ns arbitrary: m c acc)
  case Nil
  then show ?case by simp
next
  case (Cons n ns)
  then have ok: "node_ok n" and oks: "\<forall>n\<in>set ns. node_ok n" by simp_all
  show ?case
  proof (cases "key_of (name_of n) \<in> S")
    case True
    with Cons.prems have "m (key_of (name_of n)) \<noteq> None" by blast
    with True show ?thesis
      using Cons.IH [OF oks Cons.prems(2)] by (simp add: nodes_loop_step [OF ok])
  next
    case False
    have up: "\<forall>k\<in>S. (m(key_of (name_of n) \<mapsto> c)) k \<noteq> None"
      using Cons.prems(2) by simp
    have new: "nodes_loop up (filter (\<lambda>n. key_of (name_of n) \<notin> S) ns)
                 (m(key_of (name_of n) \<mapsto> c)) (c + 1) (acc @ [node_of up c n]) =
               nodes_loop up ns (m(key_of (name_of n) \<mapsto> c)) (c + 1) (acc @ [node_of up c n])"
      by (rule Cons.IH [OF oks up])
    have old: "nodes_loop up (filter (\<lambda>n. key_of (name_of n) \<notin> S) ns) m c acc = nodes_loop up ns m c acc"
      by (rule Cons.IH [OF oks Cons.prems(2)])
    from False show ?thesis
      by (simp add: nodes_loop_step [OF ok] new old)
  qed
qed

lemma first_occurrences_subset: "set (first_occurrences ns) \<subseteq> set ns"
  by (induction ns rule: first_occurrences.induct) auto

lemma ids_of_none:
  "\<forall>n\<in>set xs. key_of (name_of n) \<noteq> k \<Longrightarrow> ids_of (number_from c xs) k = None"
  by (induction xs arbitrary: c) (auto simp: ids_of_def)

lemma nodes_loop_first_occurrences:
  assumes "\<forall>n\<in>set ns. node_ok n" and "\<forall>n\<in>set ns. m (key_of (name_of n)) = None"
  shows "nodes_loop up ns m c acc =
     Inr (m ++ ids_of (number_from c (first_occurrences ns)),
          acc @ map (\<lambda>(i, n). node_of up i n) (number_from c (first_occurrences ns)))"
  using assms
proof (induction ns arbitrary: m c acc rule: first_occurrences.induct)
  case 1
  then show ?case by (simp add: ids_of_def)
next
  case (2 n ns)
  then have ok: "node_ok n" and oks: "\<forall>n\<in>set ns. node_ok n" by simp_all
  let ?k = "key_of (name_of n)"
  let ?rest = "filter (\<lambda>n'. key_of (name_of n') \<noteq> ?k) ns"
  show ?case
  proof (cases "truthy (name_of n)")
    case False
    from 2 have unseen: "\<forall>n\<in>set ns. m (key_of (name_of n)) = None" by simp
    from False show ?thesis
      using "2.IH"(2) [OF False oks unseen] by (simp add: nodes_loop_step [OF ok])
  next
    case True
    from 2 have mk: "m ?k = None" by simp
    have oks': "\<forall>n\<in>set ?rest. node_ok n" using oks by simp
    have unseen': "\<forall>n'\<in>set ?rest. (m(?k \<mapsto> c)) (key_of (name_of n')) = None"
      using "2.prems"(2) by simp
    have skip: "nodes_loop up ns (m(?k \<mapsto> c)) (c + 1) (acc @ [node_of up c n]) =
                nodes_loop up ?rest (m(?k \<mapsto> c)) (c + 1) (acc @ [node_of up c n])"
      using nodes_loop_skip [OF oks, where S = "{?k}" and m = "m(?k \<mapsto> c)" and up = up
          and c = "c + 1" and acc = "acc @ [node_of up c n]"]
      by simp
    have none: "ids_of (number_from (c + 1) (first_occurrences ?rest)) ?k = None"
      by (rule ids_of_none) (use first_occurrences_subset [of ?rest] in auto)
    have dict: "m(?k \<mapsto> c) ++ ids_of (number_from (c + 1) (first_occurrences ?rest)) =
                m ++ ids_of (number_from c (n # first_occurrences ?rest))"
    proof
      fix k
      show "(m(?k \<mapsto> c) ++ ids_of (number_from (c + 1) (first_occurrences ?rest))) k =
            (m ++ ids_of (number_from c (n # first_occurrences ?rest))) k"
        using none by (cases "k = ?k") (simp_all add: map_add_def ids_of_def split: option.splits)
    qed
    have rest: "nodes_loop up ?rest (m(?k \<mapsto> c)) (c + 1) (acc @ [node_of up c n]) =
        Inr (m(?k \<mapsto> c) ++ ids_of (number_from (c + 1) (first_occurrences ?rest)),
             (acc @ [node_of up c n]) @
               map (\<lambda>(i, n). node_of up i n) (number_from (c + 1) (first_occurrences ?rest)))"
      by (rule "2.IH"(1) [OF True oks' unseen'])
    from True mk show ?thesis
      by (simp add: nodes_loop_step [OF ok] skip rest dict)
  qed
qed

lemma length_number_from [simp]: "length (number_from c xs) = length xs"
  by (induction xs arbitrary: c) simp_all

lemma number_from_nth: "i < length xs \<Longrightarrow> number_from c xs ! i = (c + int i, xs ! i)"
proof (induction xs arbitrary: c i)
  case Nil
  then show ?case by simp
next
  case (Cons x xs)
  show ?case
  proof (cases i)
    case 0
    then show ?thesis by simp
  next
    case (Suc j)
    with Cons.prems have "j < length xs" by simp
    then have "number_from (c + 1) xs ! j = (c + 1 + int j, xs ! j)"
      by (rule Cons.IH)
    with Suc show ?thesis by simp
  qed
qed

lemma first_occurrences_truthy: "n \<in> set (first_occurrences ns) \<Longrightarrow> truthy (name_of n)"
proof (induction ns rule: first_occurrences.induct)
  case 1
  then show ?case by simp
next
  case (2 x xs)
  show ?case
  proof (cases "truthy (name_of x)")
    case True
    with "2.prems" have "n = x \<or> n \<in> set (first_occurrences
        (filter (\<lambda>n'. key_of (name_of n') \<noteq> key_of (name_of x)) xs))"
      by simp
    then show ?thesis
    proof
      assume "n = x"
      with True show ?thesis by simp
    next
      assume "n \<in> set (first_occurrences
        (filter (\<lambda>n'. key_of (name_of n') \<noteq> key_of (name_of x)) xs))"
      then show ?thesis by (rule "2.IH"(1) [OF True])
    qed
  next
    case False
    with "2.prems" have "n \<in> set (first_occurrences xs)" by simp
    then show ?thesis by (rule "2.IH"(2) [OF False])
  qed
qed

lemma first_occurrences_distinct:
  "distinct (map (\<lambda>n. key_of (name_of n)) (first_occurrences ns))"
proof (induction ns rule: first_occurrences.induct)
  case 1
  then show ?case by simp
next
  case (2 n ns)
  let ?rest = "filter (\<lambda>n'. key_of (name_of n') \<noteq> key_of (name_of n)) ns"
  have new: "key_of (name_of n) \<notin> (\<lambda>n. key_of (name_of n)) ` set (first_occurrences ?rest)"
  proof
    assume "key_of (name_of n) \<in> (\<lambda>n. key_of (name_of n)) ` set (first_occurrences ?rest)"
    then obtain x where x: "x \<in> set (first_occurrences ?rest)"
      and k: "key_of (name_of n) = key_of (name_of x)" by blast
    from x first_occurrences_subset [of ?rest] have "x \<in> set ?rest" by blast
    then have "key_of (name_of x) \<noteq> key_of (name_of n)" by simp
    with k show False by simp
  qed
  show ?case
  proof (cases "truthy (name_of n)")
    case True
    have "distinct (map (\<lambda>n. key_of (name_of n)) (first_occurrences ?rest))"
      by (rule "2.IH"(1) [OF True])
    with new True show ?thesis by simp
  next
    case False
    have "distinct (map (\<lambda>n. key_of (name_of n)) (first_occurrences ns))"
      by (rule "2.IH"(2) [OF False])
    with False show ?thesis by simp
  qed
qed

lemma first_occurrences_complete:
  "x \<in> set ns \<Longrightarrow> truthy (name_of x) \<Longrightarrow>
     \<exists>n\<in>set (first_occurrences ns). key_of (name_of n) = key_of (name_of x)"
proof (induction ns rule: first_occurrences.induct)
  case 1
  then show ?case by simp
next
  case (2 n ns)
  let ?rest = "filter (\<lambda>n'. key_of (name_of n') \<noteq> key_of (name_of n)) ns"
  show ?case
  proof (cases "truthy (name_of n)")
    case False
    with "2.prems" have "x \<in> set ns" by auto
    then have "\<exists>n\<in>set (first_occurrences ns). key_of (name_of n) = key_of (name_of x)"
      using "2.prems"(2) by (rule "2.IH"(2) [OF False])
    with False show ?thesis by simp
  next
    case True
    show ?thesis
    proof (cases "key_of (name_of x) = key_of (name_of n)")
      case True
      with \<open>truthy (name_of n)\<close> show ?thesis by simp
    next
      case False
      with "2.prems" have "x \<in> set ?rest" by auto
      then have "\<exists>n\<in>set (first_occurrences ?rest). key_of (name_of n) = key_of (name_of x)"
        using "2.prems"(2) by (rule "2.IH"(1) [OF True])
      with True show ?thesis by simp
    qed
  qed
qed

lemma ids_of_Cons:
  "ids_of ((c, x) # ps) = (ids_of ps)(key_of (name_of x) \<mapsto> c)"
  by (simp add: ids_of_def)

lemma ids_of_dom:
  "(ids_of (number_from c xs) k \<noteq> None) = (k \<in> (\<lambda>n. key_of (name_of n)) ` set xs)"
proof (induction xs arbitrary: c)
  case Nil
  then show ?case by (simp add: ids_of_def)
next
  case (Cons x xs)
  show ?case
  proof (cases "k = key_of (name_of x)")
    case True
    then show ?thesis by (simp add: ids_of_Cons)
  next
    case False
    have "(ids_of (number_from (c + 1) xs) k \<noteq> None) = (k \<in> (\<lambda>n. key_of (name_of n)) ` set xs)"
      by (rule Cons.IH)
    with False show ?thesis by (simp add: ids_of_Cons)
  qed
qed

lemma ids_of_nth:
  "distinct (map (\<lambda>n. key_of (name_of n)) xs) \<Longrightarrow> i < length xs \<Longrightarrow>
     ids_of (number_from c xs) (key_of (name_of (xs ! i))) = Some (c + int i)"
proof (induction xs arbitrary: c i)
  case Nil
  then show ?case by simp
next
  case (Cons x xs)
  show ?case
  proof (cases i)
    case 0
    then show ?thesis by (simp add: ids_of_Cons)
  next
    case (Suc j)
    from Cons.prems(2) Suc have j: "j < length xs" by simp
    from Cons.prems(1) have d: "distinct (map (\<lambda>n. key_of (name_of n)) xs)" by simp
    from Cons.prems(1) have notin: "key_of (name_of x) \<notin> (\<lambda>n. key_of (name_of n)) ` set xs"
      by simp
    from j have mem: "xs ! j \<in> set xs" by simp
    have ne: "key_of (name_of (xs ! j)) \<noteq> key_of (name_of x)"
    proof
      assume e: "key_of (name_of (xs ! j)) = key_of (name_of x)"
      from mem have "key_of (name_of (xs ! j)) \<in> (\<lambda>n. key_of (name_of n)) ` set xs"
        by (rule imageI)
      with e notin show False by simp
    qed
    have "ids_of (number_from (c + 1) xs) (key_of (name_of (xs ! j))) = Some (c + 1 + int j)"
      by (rule Cons.IH [OF d j])
    with ne Suc show ?thesis by (simp add: ids_of_Cons)
  qed
qed

lemma edge_ok_label:
  assumes "edge_ok e"
  shows "(case py_get e ''label'' (JStr ''RELATED_TO'') of Inl x \<Rightarrow> Inl x | Inr l \<Rightarrow> py_upper up l)
       = Inr (edge_label_of up e)"
proof -
  from assms obtain kvs where e: "e = JObj kvs"
    by (cases e) (simp_all add: edge_ok_def)
  show ?thesis
  proof (cases "map_of kvs ''label''")
    case None
    with e show ?thesis by (simp add: edge_label_of_def field_def)
  next
    case (Some l)
    with assms e have "is_str l" by (simp add: edge_ok_def field_def absent_or_def)
    then obtain t where "l = JStr t" by (cases l) simp_all
    with Some e show ?thesis by (simp add: edge_label_of_def field_def)
  qed
qed

lemma edge_ok_source: "edge_ok e \<Longrightarrow> py_get e ''source'' JNull = Inr (source_of e)"
  by (simp add: edge_ok_def py_get_dict source_of_def)

lemma edge_ok_target: "edge_ok e \<Longrightarrow> py_get e ''target'' JNull = Inr (target_of e)"
  by (simp add: edge_ok_def py_get_dict target_of_def)

lemma edge_ok_hash_source: "edge_ok e \<Longrightarrow> py_hash_key (source_of e) = Inr (key_of (source_of e))"
  by (rule py_hash_key_hashable)
     (auto simp: edge_ok_def source_of_def absent_or_def split: option.splits)

lemma edge_ok_hash_target: "edge_ok e \<Longrightarrow> py_hash_key (target_of e) = Inr (key_of (target_of e))"
  by (rule py_hash_key_hashable)
     (auto simp: edge_ok_def target_of_def absent_or_def split: option.splits)

lemma edge_ok_fields:
  assumes "edge_ok e"
  shows "edge_fields up e m =
     Inr (edge_label_of up e,
          if edge_accepted m e then Some (the_id m (source_of e), the_id m (target_of e)) else None)"
proof -
  have l: "py_get e ''label'' (JStr ''RELATED_TO'') = Inr l \<Longrightarrow> py_upper up l = Inr (edge_label_of up e)" for l
    using edge_ok_label [OF assms, of up] by simp
  from assms obtain l where g: "py_get e ''label'' (JStr ''RELATED_TO'') = Inr l"
    by (cases e) (simp_all add: edge_ok_def)
  show ?thesis
    unfolding edge_fields_def
    by (simp add: edge_ok_source [OF assms] edge_ok_target [OF assms] g l [OF g]
          py_in_def id_of_def edge_ok_hash_source [OF assms] edge_ok_hash_target [OF assms]
          edge_accepted_def has_id_def the_id_def split: option.splits)
qed

declare edges_loop.simps(2) [simp del]

lemma edges_loop_step:
  assumes "edge_ok e"
  shows "edges_loop up (e # rest) m c acc L =
     (if edge_accepted m e
      then edges_loop up rest m (c + 1) (acc @ [edge_of up m c e]) (insert (edge_label_of up e) L)
      else edges_loop up rest m c acc L)"
  by (simp add: edges_loop.simps(2) edge_ok_fields [OF assms] edge_of_def)

lemma edges_loop_accepted:
  assumes "\<forall>e\<in>set es. edge_ok e"
  shows "edges_loop up es m c acc L =
     Inr (acc @ map (\<lambda>(i, e). edge_of up m i e) (number_from c (filter (edge_accepted m) es)),
          L \<union> edge_label_of up ` set (filter (edge_accepted m) es))"
  using assms
proof (induction es arbitrary: c acc L)
  case Nil
  then show ?case by (simp add: edges_loop.simps(1))
next
  case (Cons e es)
  then have ok: "edge_ok e" and oks: "\<forall>e\<in>set es. edge_ok e" by simp_all
  show ?case
  proof (cases "edge_accepted m e")
    case True
    have "edges_loop up es m (c + 1) (acc @ [edge_of up m c e]) (insert (edge_label_of up e) L) =
       Inr ((acc @ [edge_of up m c e]) @
              map (\<lambda>(i, e). edge_of up m i e) (number_from (c + 1) (filter (edge_accepted m) es)),
            insert (edge_label_of up e) L \<union> edge_label_of up ` set (filter (edge_accepted m) es))"
      by (rule Cons.IH [OF oks])
    with True show ?thesis by (simp add: edges_loop_step [OF ok])
  next
    case False
    have "edges_loop up es m c acc L =
       Inr (acc @ map (\<lambda>(i, e). edge_of up m i e) (number_from c (filter (edge_accepted m) es)),
            L \<union> edge_label_of up ` set (filter (edge_accepted m) es))"
      by (rule Cons.IH [OF oks])
    with False show ?thesis by (simp add: edges_loop_step [OF ok])
  qed
qed

lemma format_readable:
  assumes ns: "\<forall>n\<in>set ns. node_ok n" and es: "\<forall>e\<in>set es. edge_ok e"
  shows "format_for_st_link_analysis up (llm_json_output_of ns (JList es)) =
     Inr (\<lparr>nodes = map (\<lambda>(i, n). node_of up i n) (number_from 1 (first_occurrences ns)),
           edges = map (\<lambda>(i, e). edge_of up (ids_of (number_from 1 (first_occurrences ns))) i e)
                     (number_from 1
                        (filter (edge_accepted (ids_of (number_from 1 (first_occurrences ns)))) es))\<rparr>,
          node_styles,
          edge_style_of ` edge_label_of up `
            set (filter (edge_accepted (ids_of (number_from 1 (first_occurrences ns)))) es))"
proof -
  have n: "nodes_loop up ns Map.empty 1 [] =
      Inr (ids_of (number_from 1 (first_occurrences ns)),
           map (\<lambda>(i, n). node_of up i n) (number_from 1 (first_occurrences ns)))"
    using nodes_loop_first_occurrences [OF ns, of Map.empty up 1 "[]"] by simp
  show ?thesis
    by (simp add: format_for_st_link_analysis_def llm_json_output_of_def n
          edges_loop_accepted [OF es])
qed

lemma nodes_nth:
  "i < length xs \<Longrightarrow> map (\<lambda>(i, n). node_of up i n) (number_from c xs) ! i = node_of up (c + int i) (xs ! i)"
  by (simp add: number_from_nth)

lemma edges_nth:
  "i < length xs \<Longrightarrow> map (\<lambda>(i, e). edge_of up m i e) (number_from c xs) ! i = edge_of up m (c + int i) (xs ! i)"
  by (simp add: number_from_nth)

lemma map_name_numbered:
  "map (\<lambda>d. key_of (nd_name d)) (map (\<lambda>(i, n). node_of up i n) (number_from c xs)) =
   map (\<lambda>n. key_of (name_of n)) xs"
  by (induction xs arbitrary: c) simp_all

lemma set_numbered_names:
  "(\<lambda>d. key_of (nd_name d)) ` set (map (\<lambda>(i, n). node_of up i n) (number_from c xs)) =
   (\<lambda>n. key_of (name_of n)) ` set xs"
proof -
  have "(\<lambda>d. key_of (nd_name d)) ` set (map (\<lambda>(i, n). node_of up i n) (number_from c xs)) =
        set (map (\<lambda>d. key_of (nd_name d)) (map (\<lambda>(i, n). node_of up i n) (number_from c xs)))"
    by (simp only: set_map)
  also have "\<dots> = set (map (\<lambda>n. key_of (name_of n)) xs)"
    by (simp only: map_name_numbered)
  finally show ?thesis by (simp only: set_map)
qed

lemma numbered_truthy:
  "d \<in> set (map (\<lambda>(i, n). node_of up i n) (number_from c xs)) \<Longrightarrow> \<exists>n\<in>set xs. nd_name d = name_of n"
  by (induction xs arbitrary: c) auto

lemma example_nodes_ok: "list_all node_ok example_nodes"
  by (simp add: example_nodes_def person_def node_ok_def field_def absent_or_def)

lemma example_edges_ok: "list_all edge_ok example_edges"
  by (simp add: example_edges_def edge_ok_def field_def absent_or_def)

lemma node_of_id: "nd_id (node_of up c n) = c"
  by (simp add: node_of_def)

lemma key_of_str: "(key_of (JStr s) = key_of (JStr t)) = (s = t)"
  by (simp add: key_of_def)

lemma list_all_ball: "list_all P xs \<Longrightarrow> \<forall>x\<in>set xs. P x"
  by (simp add: list_all_iff)

lemma example_first_occurrences:
  "first_occurrences example_nodes = [person ''Alice'', JObj [(''name'', JStr ''Bob'')]]"
  by (simp add: example_nodes_def person_def name_of_def field_def key_of_def)

lemma nodes_loop_readable:
  assumes ns: "\<forall>n\<in>set ns. node_ok n"
  shows "nodes_loop up ns Map.empty 1 [] =
      Inr (ids_of (number_from 1 (first_occurrences ns)),
           map (\<lambda>(i, n). node_of up i n) (number_from 1 (first_occurrences ns)))"
  using nodes_loop_first_occurrences [OF ns, of Map.empty up 1 "[]"] by simp

text \<open>
  Claim C5. Let every entity object be readable (\<open>node_ok\<close>). Then the node loop of the
  projection, started as the projection starts it, returns; its nodes are the first
  occurrences of the non-empty names, in the order of the input, numbered 1, 2, 3 and so
  on, and the name dict maps the name of each node to its number and holds no other name:
  an entity with an empty (or no) name and a later entity of a name already seen get no
  id and no node. No name has two nodes, no node has an empty name, and every non-empty
  name of the input has a node. Two names that are strings are the same key exactly when
  they are the same string. When the relationship objects are readable too, these are the
  nodes the projection returns.
\<close>

theorem projection_first_occurrences:
  assumes ns: "\<forall>n\<in>set ns. node_ok n"
  shows "\<exists>m out.
     nodes_loop up ns Map.empty 1 [] = Inr (m, out)
     \<and> length out = length (first_occurrences ns)
     \<and> (\<forall>i<length out.
           out ! i = node_of up (int i + 1) (first_occurrences ns ! i)
           \<and> nd_id (out ! i) = int i + 1
           \<and> nd_name (out ! i) = name_of (first_occurrences ns ! i)
           \<and> m (key_of (nd_name (out ! i))) = Some (int i + 1))
     \<and> (\<forall>x. has_id m x = (\<exists>d\<in>set out. key_of (nd_name d) = key_of x))
     \<and> distinct (map (\<lambda>d. key_of (nd_name d)) out)
     \<and> (\<forall>d\<in>set out. truthy (nd_name d))
     \<and> (\<forall>n\<in>set ns. truthy (name_of n) \<longrightarrow>
           (\<exists>d\<in>set out. key_of (nd_name d) = key_of (name_of n)))
     \<and> (\<forall>s t. (key_of (JStr s) = key_of (JStr t)) = (s = t))
     \<and> ((\<forall>e\<in>set es. edge_ok e) \<longrightarrow>
          (\<exists>els sty est.
             format_for_st_link_analysis up (llm_json_output_of ns (JList es)) = Inr (els, sty, est)
             \<and> nodes els = out))"
proof -
  let ?fo = "first_occurrences ns"
  define out where "out = map (\<lambda>(i, n). node_of up i n) (number_from 1 ?fo)"
  define m where "m = ids_of (number_from 1 ?fo)"
  have run: "nodes_loop up ns Map.empty 1 [] = Inr (m, out)"
    unfolding m_def out_def by (rule nodes_loop_readable [OF ns])
  have len: "length out = length ?fo" by (simp add: out_def)
  have nth: "\<forall>i<length out.
           out ! i = node_of up (int i + 1) (?fo ! i)
           \<and> nd_id (out ! i) = int i + 1
           \<and> nd_name (out ! i) = name_of (?fo ! i)
           \<and> m (key_of (nd_name (out ! i))) = Some (int i + 1)"
  proof (intro allI impI)
    fix i assume "i < length out"
    with len have i: "i < length ?fo" by simp
    have "out ! i = node_of up (1 + int i) (?fo ! i)"
      unfolding out_def by (rule nodes_nth [OF i])
    then have e: "out ! i = node_of up (int i + 1) (?fo ! i)"
      by (simp add: add.commute)
    have "m (key_of (name_of (?fo ! i))) = Some (1 + int i)"
      unfolding m_def by (rule ids_of_nth [OF first_occurrences_distinct i])
    then have k: "m (key_of (name_of (?fo ! i))) = Some (int i + 1)"
      by (simp add: add.commute)
    show "out ! i = node_of up (int i + 1) (?fo ! i)
           \<and> nd_id (out ! i) = int i + 1
           \<and> nd_name (out ! i) = name_of (?fo ! i)
           \<and> m (key_of (nd_name (out ! i))) = Some (int i + 1)"
      by (simp only: e node_of_id node_of_name k)
  qed
  have names: "(\<lambda>d. key_of (nd_name d)) ` set out = (\<lambda>n. key_of (name_of n)) ` set ?fo"
    unfolding out_def by (rule set_numbered_names)
  have has: "\<forall>x. has_id m x = (\<exists>d\<in>set out. key_of (nd_name d) = key_of x)"
  proof
    fix x
    have "has_id m x = (key_of x \<in> (\<lambda>n. key_of (name_of n)) ` set ?fo)"
      by (simp only: has_id_def m_def ids_of_dom)
    also have "\<dots> = (key_of x \<in> (\<lambda>d. key_of (nd_name d)) ` set out)"
      by (simp only: names)
    also have "\<dots> = (\<exists>d\<in>set out. key_of (nd_name d) = key_of x)"
      by (simp only: image_iff) (rule bex_cong, rule refl, rule eq_commute)
    finally show "has_id m x = (\<exists>d\<in>set out. key_of (nd_name d) = key_of x)" .
  qed
  have dis: "distinct (map (\<lambda>d. key_of (nd_name d)) out)"
    by (simp only: out_def map_name_numbered first_occurrences_distinct)
  have tr: "\<forall>d\<in>set out. truthy (nd_name d)"
  proof
    fix d assume "d \<in> set out"
    then obtain n where "n \<in> set ?fo" and "nd_name d = name_of n"
      unfolding out_def using numbered_truthy by blast
    then show "truthy (nd_name d)" by (simp add: first_occurrences_truthy)
  qed
  have all: "\<forall>n\<in>set ns. truthy (name_of n) \<longrightarrow>
           (\<exists>d\<in>set out. key_of (nd_name d) = key_of (name_of n))"
  proof (intro ballI impI)
    fix n assume "n \<in> set ns" and "truthy (name_of n)"
    then obtain x where x: "x \<in> set ?fo" and k: "key_of (name_of x) = key_of (name_of n)"
      using first_occurrences_complete by blast
    from x have "key_of (name_of x) \<in> (\<lambda>n. key_of (name_of n)) ` set ?fo"
      by (rule imageI)
    with k have "key_of (name_of n) \<in> (\<lambda>d. key_of (nd_name d)) ` set out"
      by (simp only: names)
    then obtain d where "d \<in> set out" and "key_of (name_of n) = key_of (nd_name d)"
      by (rule imageE)
    then have "d \<in> set out" and "key_of (nd_name d) = key_of (name_of n)"
      by simp_all
    then show "\<exists>d\<in>set out. key_of (nd_name d) = key_of (name_of n)"
      by (rule bexI [rotated])
  qed
  have fmt: "(\<forall>e\<in>set es. edge_ok e) \<longrightarrow>
          (\<exists>els sty est.
             format_for_st_link_analysis up (llm_json_output_of ns (JList es)) = Inr (els, sty, est)
             \<and> nodes els = out)"
  proof
    assume es: "\<forall>e\<in>set es. edge_ok e"
    from format_readable [OF ns es, of up]
    show "\<exists>els sty est.
             format_for_st_link_analysis up (llm_json_output_of ns (JList es)) = Inr (els, sty, est)
             \<and> nodes els = out"
      by (simp add: out_def)
  qed
  from run len nth has dis tr all key_of_str fmt show ?thesis by blast
qed

text \<open>The theorem of C5 on the example data.\<close>

theorem projection_first_occurrences_witness:
  "list_all node_ok example_nodes \<and> list_all edge_ok example_edges
   \<and> (\<exists>m out.
     nodes_loop ascii_upper example_nodes Map.empty 1 [] = Inr (m, out)
     \<and> length out = length (first_occurrences example_nodes)
     \<and> (\<forall>i<length out.
           out ! i = node_of ascii_upper (int i + 1) (first_occurrences example_nodes ! i)
           \<and> nd_id (out ! i) = int i + 1
           \<and> nd_name (out ! i) = name_of (first_occurrences example_nodes ! i)
           \<and> m (key_of (nd_name (out ! i))) = Some (int i + 1))
     \<and> (\<forall>x. has_id m x = (\<exists>d\<in>set out. key_of (nd_name d) = key_of x))
     \<and> distinct (map (\<lambda>d. key_of (nd_name d)) out)
     \<and> (\<forall>d\<in>set out. truthy (nd_name d))
     \<and> (\<forall>n\<in>set example_nodes. truthy (name_of n) \<longrightarrow>
           (\<exists>d\<in>set out. key_of (nd_name d) = key_of (name_of n)))
     \<and> (\<forall>s t. (key_of (JStr s) = key_of (JStr t)) = (s = t))
     \<and> ((\<forall>e\<in>set example_edges. edge_ok e) \<longrightarrow>
          (\<exists>els sty est.
             format_for_st_link_analysis ascii_upper
               (llm_json_output_of example_nodes (JList example_edges)) = Inr (els, sty, est)
             \<and> nodes els = out)))"
proof (intro conjI)
  show "list_all node_ok example_nodes" by (rule example_nodes_ok)
  show "list_all edge_ok example_edges" by (rule example_edges_ok)
  show "\<exists>m out.
     nodes_loop ascii_upper example_nodes Map.empty 1 [] = Inr (m, out)
     \<and> length out = length (first_occurrences example_nodes)
     \<and> (\<forall>i<length out.
           out ! i = node_of ascii_upper (int i + 1) (first_occurrences example_nodes ! i)
           \<and> nd_id (out ! i) = int i + 1
           \<and> nd_name (out ! i) = name_of (first_occurrences example_nodes ! i)
           \<and> m (key_of (nd_name (out ! i))) = Some (int i + 1))
     \<and> (\<forall>x. has_id m x = (\<exists>d\<in>set out. key_of (nd_name d) = key_of x))
     \<and> distinct (map (\<lambda>d. key_of (nd_name d)) out)
     \<and> (\<forall>d\<in>set out. truthy (nd_name d))
     \<and> (\<forall>n\<in>set example_nodes. truthy (name_of n) \<longrightarrow>
           (\<exists>d\<in>set out. key_of (nd_name d) = key_of (name_of n)))
     \<and> (\<forall>s t. (key_of (JStr s) = key_of (JStr t)) = (s = t))
     \<and> ((\<forall>e\<in>set example_edges. edge_ok e) \<longrightarrow>
          (\<exists>els sty est.
             format_for_st_link_analysis ascii_upper
               (llm_json_output_of example_nodes (JList example_edges)) = Inr (els, sty, est)
             \<and> nodes els = out))"
    by (rule projection_first_occurrences [OF list_all_ball [OF example_nodes_ok]])
qed

text \<open>
  Claim C6. Let every relationship object be readable (\<open>edge_ok\<close>). Then the edge loop of
  the projection, started as the projection starts it on any name dict \<open>m\<close>, returns; its
  edges are the relationships whose source and target both have an id in \<open>m\<close>, in the
  order of the input, and the edge at position \<open>i\<close> (from 0) has the id \<open>e\<close> followed by
  \<open>i + 1\<close>: a relationship that is left out takes no number. There are no more edges than
  relationships. When the entity objects are readable, the edges the projection returns
  are those of this loop on the name dict of its node loop.
\<close>

theorem projection_edges_gap_free:
  assumes es: "\<forall>e\<in>set es. edge_ok e"
  shows "\<exists>out labels.
     edges_loop up es m 1 [] {} = Inr (out, labels)
     \<and> length out = length (filter (edge_accepted m) es)
     \<and> length out \<le> length es
     \<and> (\<forall>i<length out.
           out ! i = edge_of up m (int i + 1) (filter (edge_accepted m) es ! i)
           \<and> ed_id (out ! i) = ''e'' @ str_int (int i + 1))
     \<and> (\<forall>e\<in>set es. edge_accepted m e = (has_id m (source_of e) \<and> has_id m (target_of e)))
     \<and> ((\<forall>n\<in>set ns. node_ok n) \<longrightarrow>
          (\<exists>els sty est m' labels'.
             format_for_st_link_analysis up (llm_json_output_of ns (JList es)) = Inr (els, sty, est)
             \<and> nodes_loop up ns Map.empty 1 [] = Inr (m', nodes els)
             \<and> edges_loop up es m' 1 [] {} = Inr (edges els, labels')))"
proof -
  let ?acc = "filter (edge_accepted m) es"
  define out where "out = map (\<lambda>(i, e). edge_of up m i e) (number_from 1 ?acc)"
  have run: "edges_loop up es m 1 [] {} = Inr (out, edge_label_of up ` set ?acc)"
    unfolding out_def using edges_loop_accepted [OF es, of up m 1 "[]" "{}"] by simp
  have len: "length out = length ?acc" by (simp add: out_def)
  have le: "length out \<le> length es" by (simp add: out_def)
  have nth: "\<forall>i<length out.
           out ! i = edge_of up m (int i + 1) (?acc ! i)
           \<and> ed_id (out ! i) = ''e'' @ str_int (int i + 1)"
  proof (intro allI impI)
    fix i assume "i < length out"
    with len have i: "i < length ?acc" by simp
    have "out ! i = edge_of up m (1 + int i) (?acc ! i)"
      unfolding out_def by (rule edges_nth [OF i])
    then have e: "out ! i = edge_of up m (int i + 1) (?acc ! i)"
      by (simp add: add.commute)
    have "ed_id (edge_of up m (int i + 1) (?acc ! i)) = ''e'' @ str_int (int i + 1)"
      by (simp add: edge_of_def)
    with e show "out ! i = edge_of up m (int i + 1) (?acc ! i)
           \<and> ed_id (out ! i) = ''e'' @ str_int (int i + 1)"
      by simp
  qed
  have acc: "\<forall>e\<in>set es. edge_accepted m e = (has_id m (source_of e) \<and> has_id m (target_of e))"
    by (simp add: edge_accepted_def)
  have fmt: "(\<forall>n\<in>set ns. node_ok n) \<longrightarrow>
          (\<exists>els sty est m' labels'.
             format_for_st_link_analysis up (llm_json_output_of ns (JList es)) = Inr (els, sty, est)
             \<and> nodes_loop up ns Map.empty 1 [] = Inr (m', nodes els)
             \<and> edges_loop up es m' 1 [] {} = Inr (edges els, labels'))"
  proof
    assume ns: "\<forall>n\<in>set ns. node_ok n"
    let ?m = "ids_of (number_from 1 (first_occurrences ns))"
    let ?els = "\<lparr>nodes = map (\<lambda>(i, n). node_of up i n) (number_from 1 (first_occurrences ns)),
                 edges = map (\<lambda>(i, e). edge_of up ?m i e)
                           (number_from 1 (filter (edge_accepted ?m) es))\<rparr>"
    have f: "format_for_st_link_analysis up (llm_json_output_of ns (JList es)) =
        Inr (?els, node_styles, edge_style_of ` edge_label_of up ` set (filter (edge_accepted ?m) es))"
      by (rule format_readable [OF ns es])
    have n: "nodes_loop up ns Map.empty 1 [] = Inr (?m, nodes ?els)"
      using nodes_loop_readable [OF ns, of up] by simp
    have e: "edges_loop up es ?m 1 [] {} =
        Inr (edges ?els, edge_label_of up ` set (filter (edge_accepted ?m) es))"
      using edges_loop_accepted [OF es, of up ?m 1 "[]" "{}"] by simp
    from f n e show "\<exists>els sty est m' labels'.
             format_for_st_link_analysis up (llm_json_output_of ns (JList es)) = Inr (els, sty, est)
             \<and> nodes_loop up ns Map.empty 1 [] = Inr (m', nodes els)
             \<and> edges_loop up es m' 1 [] {} = Inr (edges els, labels')"
      by blast
  qed
  from run len le nth acc fmt show ?thesis by blast
qed

text \<open>The theorem of C6 on the example data.\<close>

theorem projection_edges_gap_free_witness:
  "list_all edge_ok example_edges
   \<and> (\<exists>out labels.
     edges_loop ascii_upper example_edges [KStr ''Alice'' \<mapsto> 1, KStr ''Bob'' \<mapsto> 2] 1 [] {}
       = Inr (out, labels)
     \<and> length out = length (filter (edge_accepted [KStr ''Alice'' \<mapsto> 1, KStr ''Bob'' \<mapsto> 2]) example_edges)
     \<and> length out \<le> length example_edges
     \<and> (\<forall>i<length out.
           out ! i = edge_of ascii_upper [KStr ''Alice'' \<mapsto> 1, KStr ''Bob'' \<mapsto> 2] (int i + 1)
                       (filter (edge_accepted [KStr ''Alice'' \<mapsto> 1, KStr ''Bob'' \<mapsto> 2]) example_edges ! i)
           \<and> ed_id (out ! i) = ''e'' @ str_int (int i + 1))
     \<and> (\<forall>e\<in>set example_edges.
           edge_accepted [KStr ''Alice'' \<mapsto> 1, KStr ''Bob'' \<mapsto> 2] e =
             (has_id [KStr ''Alice'' \<mapsto> 1, KStr ''Bob'' \<mapsto> 2] (source_of e)
              \<and> has_id [KStr ''Alice'' \<mapsto> 1, KStr ''Bob'' \<mapsto> 2] (target_of e)))
     \<and> ((\<forall>n\<in>set example_nodes. node_ok n) \<longrightarrow>
          (\<exists>els sty est m' labels'.
             format_for_st_link_analysis ascii_upper
               (llm_json_output_of example_nodes (JList example_edges)) = Inr (els, sty, est)
             \<and> nodes_loop ascii_upper example_nodes Map.empty 1 [] = Inr (m', nodes els)
             \<and> edges_loop ascii_upper example_edges m' 1 [] {} = Inr (edges els, labels'))))"
proof (intro conjI)
  show "list_all edge_ok example_edges" by (rule example_edges_ok)
  show "\<exists>out labels.
     edges_loop ascii_upper example_edges [KStr ''Alice'' \<mapsto> 1, KStr ''Bob'' \<mapsto> 2] 1 [] {}
       = Inr (out, labels)
     \<and> length out = length (filter (edge_accepted [KStr ''Alice'' \<mapsto> 1, KStr ''Bob'' \<mapsto> 2]) example_edges)
     \<and> length out \<le> length example_edges
     \<and> (\<forall>i<length out.
           out ! i = edge_of ascii_upper [KStr ''Alice'' \<mapsto> 1, KStr ''Bob'' \<mapsto> 2] (int i + 1)
                       (filter (edge_accepted [KStr ''Alice'' \<mapsto> 1, KStr ''Bob'' \<mapsto> 2]) example_edges ! i)
           \<and> ed_id (out ! i) = ''e'' @ str_int (int i + 1))
     \<and> (\<forall>e\<in>set example_edges.
           edge_accepted [KStr ''Alice'' \<mapsto> 1, KStr ''Bob'' \<mapsto> 2] e =
             (has_id [KStr ''Alice'' \<mapsto> 1, KStr ''Bob'' \<mapsto> 2] (source_of e)
              \<and> has_id [KStr ''Alice'' \<mapsto> 1, KStr ''Bob'' \<mapsto> 2] (target_of e)))
     \<and> ((\<forall>n\<in>set example_nodes. node_ok n) \<longrightarrow>
          (\<exists>els sty est m' labels'.
             format_for_st_link_analysis ascii_upper
               (llm_json_output_of example_nodes (JList example_edges)) = Inr (els, sty, est)
             \<and> nodes_loop ascii_upper example_nodes Map.empty 1 [] = Inr (m', nodes els)
             \<and> edges_loop ascii_upper example_edges m' 1 [] {} = Inr (edges els, labels')))"
    by (rule projection_edges_gap_free [OF list_all_ball [OF example_edges_ok]])
qed


lemma str_int_1: "str_int 1 = ''1''"
  by (simp add: str_int_def digit_char_def)

lemma str_int_2: "str_int 2 = ''2''"
  by (simp add: str_int_def digit_char_def)

lemma example_projection:
  "format_for_st_link_analysis ascii_upper (llm_json_output_of example_nodes (JList example_edges)) =
     Inr (\<lparr>nodes =
             [\<lparr>nd_id = 1, nd_label = ''PERSON'', nd_name = JStr ''Alice'',
               nd_personality = Some (JStr [])\<rparr>,
              \<lparr>nd_id = 2, nd_label = ''ENTITY'', nd_name = JStr ''Bob'', nd_personality = None\<rparr>],
           edges =
             [\<lparr>ed_id = ''e1'', ed_label = ''RELATED_TO'', ed_source = 1, ed_target = 2\<rparr>]\<rparr>,
          node_styles, {edge_style_of ''RELATED_TO''})"
  by (simp add: format_for_st_link_analysis_def llm_json_output_of_def example_nodes_def
        example_edges_def person_def nodes_loop.simps edges_loop.simps node_data_of_def
        edge_fields_def py_in_def id_of_def ascii_upper_def ascii_upper_char_def str_int_1)

text \<open>
  Claim C3, as amended. When every entity object is a dict whose label, if it has one, is a
  string and whose name, if it has one, is hashable, and every relationship object is a
  dict whose label, if it has one, is a string and whose source and target, if it has
  them, are hashable, the projection returns and raises nothing. A missing list is an
  empty list; a missing name is an empty name (the entity is skipped); a missing label is
  \<open>ENTITY\<close>, or \<open>RELATED_TO\<close> for a relationship, in upper case; a missing personality
  of a person is the empty string; a relationship without a source or a target is left
  out.
\<close>

theorem projection_readable_input:
  assumes ns: "\<forall>n\<in>set ns. node_ok n" and es: "\<forall>e\<in>set es. edge_ok e"
  shows "format_for_st_link_analysis up (llm_json_output_of ns (JList es)) =
     Inr (\<lparr>nodes = map (\<lambda>(i, n). node_of up i n) (number_from 1 (first_occurrences ns)),
           edges = map (\<lambda>(i, e). edge_of up (ids_of (number_from 1 (first_occurrences ns))) i e)
                     (number_from 1
                        (filter (edge_accepted (ids_of (number_from 1 (first_occurrences ns)))) es))\<rparr>,
          node_styles,
          edge_style_of ` edge_label_of up `
            set (filter (edge_accepted (ids_of (number_from 1 (first_occurrences ns)))) es))
     \<and> format_for_st_link_analysis up (JObj []) = Inr (\<lparr>nodes = [], edges = []\<rparr>, node_styles, {})
     \<and> (field n ''name'' = None \<longrightarrow> \<not> truthy (name_of n))
     \<and> (field n ''label'' = None \<longrightarrow> label_of up n = up ''ENTITY'')
     \<and> (field n ''personality'' = None \<and> label_of up n = ''PERSON'' \<longrightarrow>
          nd_personality (node_of up i n) = Some (JStr []))
     \<and> (field e ''label'' = None \<longrightarrow> edge_label_of up e = up ''RELATED_TO'')
     \<and> (field e ''source'' = None \<or> field e ''target'' = None \<longrightarrow>
          \<not> edge_accepted (ids_of (number_from 1 (first_occurrences ns))) e)"
proof (intro conjI impI)
  show "format_for_st_link_analysis up (llm_json_output_of ns (JList es)) =
     Inr (\<lparr>nodes = map (\<lambda>(i, n). node_of up i n) (number_from 1 (first_occurrences ns)),
           edges = map (\<lambda>(i, e). edge_of up (ids_of (number_from 1 (first_occurrences ns))) i e)
                     (number_from 1
                        (filter (edge_accepted (ids_of (number_from 1 (first_occurrences ns)))) es))\<rparr>,
          node_styles,
          edge_style_of ` edge_label_of up `
            set (filter (edge_accepted (ids_of (number_from 1 (first_occurrences ns)))) es))"
    by (rule format_readable [OF ns es])
next
  show "format_for_st_link_analysis up (JObj []) = Inr (\<lparr>nodes = [], edges = []\<rparr>, node_styles, {})"
    by (simp add: format_for_st_link_analysis_def)
next
  assume "field n ''name'' = None"
  then show "\<not> truthy (name_of n)" by (simp add: name_of_def)
next
  assume "field n ''label'' = None"
  then show "label_of up n = up ''ENTITY''" by (simp add: label_of_def)
next
  assume "field n ''personality'' = None \<and> label_of up n = ''PERSON''"
  then show "nd_personality (node_of up i n) = Some (JStr [])" by (simp add: node_of_def)
next
  assume "field e ''label'' = None"
  then show "edge_label_of up e = up ''RELATED_TO''" by (simp add: edge_label_of_def)
next
  let ?m = "ids_of (number_from 1 (first_occurrences ns))"
  assume a: "field e ''source'' = None \<or> field e ''target'' = None"
  have none: "?m KNone = None"
  proof (rule ccontr)
    assume "?m KNone \<noteq> None"
    then have "KNone \<in> (\<lambda>n. key_of (name_of n)) ` set (first_occurrences ns)"
      by (simp only: ids_of_dom)
    then obtain x where x: "x \<in> set (first_occurrences ns)" and k: "KNone = key_of (name_of x)"
      by (rule imageE)
    from x have t: "truthy (name_of x)" by (rule first_occurrences_truthy)
    from x first_occurrences_subset [of ns] have "x \<in> set ns" by (rule subsetD [rotated])
    with ns have "node_ok x" by (rule bspec)
    then have "hashable (name_of x)"
      by (auto simp: node_ok_def name_of_def absent_or_def split: option.splits)
    with t k show False by (cases "name_of x") (simp_all add: key_of_def)
  qed
  from a show "\<not> edge_accepted ?m e"
  proof
    assume "field e ''source'' = None"
    then have "key_of (source_of e) = KNone" by (simp add: source_of_def key_of_def)
    with none show ?thesis by (simp add: edge_accepted_def has_id_def)
  next
    assume "field e ''target'' = None"
    then have "key_of (target_of e) = KNone" by (simp add: target_of_def key_of_def)
    with none show ?thesis by (simp add: edge_accepted_def has_id_def)
  qed
qed

text \<open>The theorem of C3 on the example data and on objects without fields.\<close>

theorem projection_readable_input_witness:
  "list_all node_ok example_nodes \<and> list_all edge_ok example_edges
   \<and> format_for_st_link_analysis ascii_upper (llm_json_output_of example_nodes (JList example_edges)) =
     Inr (\<lparr>nodes = map (\<lambda>(i, n). node_of ascii_upper i n)
                     (number_from 1 (first_occurrences example_nodes)),
           edges = map (\<lambda>(i, e). edge_of ascii_upper
                                  (ids_of (number_from 1 (first_occurrences example_nodes))) i e)
                     (number_from 1
                        (filter (edge_accepted (ids_of (number_from 1 (first_occurrences example_nodes))))
                           example_edges))\<rparr>,
          node_styles,
          edge_style_of ` edge_label_of ascii_upper `
            set (filter (edge_accepted (ids_of (number_from 1 (first_occurrences example_nodes))))
                   example_edges))
   \<and> field (JObj []) ''name'' = None \<and> \<not> truthy (name_of (JObj []))
   \<and> field (JObj []) ''label'' = None \<and> label_of ascii_upper (JObj []) = ascii_upper ''ENTITY''
   \<and> edge_label_of ascii_upper (JObj []) = ascii_upper ''RELATED_TO''
   \<and> field (JObj []) ''source'' = None
   \<and> \<not> edge_accepted (ids_of (number_from 1 (first_occurrences example_nodes))) (JObj [])
   \<and> field (person ''Alice'') ''personality'' = None
   \<and> label_of ascii_upper (person ''Alice'') = ''PERSON''
   \<and> nd_personality (node_of ascii_upper 1 (person ''Alice'')) = Some (JStr [])"
proof -
  have f: "field (JObj []) k = None" for k by (simp add: field_def)
  have p: "field (person ''Alice'') ''personality'' = None \<and> label_of ascii_upper (person ''Alice'') = ''PERSON''"
    by (simp add: field_def person_def label_of_def ascii_upper_def ascii_upper_char_def)
  note t1 = projection_readable_input
      [OF list_all_ball [OF example_nodes_ok] list_all_ball [OF example_edges_ok],
       where up = ascii_upper and n = "JObj []" and e = "JObj []" and i = 1]
  note t2 = projection_readable_input
      [OF list_all_ball [OF example_nodes_ok] list_all_ball [OF example_edges_ok],
       where up = ascii_upper and n = "person ''Alice''" and e = "JObj []" and i = 1]
  from t2 p have c: "nd_personality (node_of ascii_upper 1 (person ''Alice'')) = Some (JStr [])"
    by blast
  from t1 f [of "''name''"] f [of "''label''"] f [of "''source''"] c p
    example_nodes_ok example_edges_ok
  show ?thesis by blast
qed

text \<open>
  Claim C3 as it was stated fails on a label that is null: the key is there, so
  \<open>get\<close> returns \<open>None\<close> and not the default, and \<open>None\<close> has no \<open>upper\<close>.
\<close>

theorem null_label_counterexample:
  "format_for_st_link_analysis ascii_upper
     (llm_json_output_of [JObj [(''name'', JStr ''Alice''), (''label'', JNull)]] (JList []))
   = Inl AttributeError"
  by (simp add: format_for_st_link_analysis_def llm_json_output_of_def nodes_loop.simps
        node_data_of_def)

text \<open>
  Claim C9. With \<open>str.upper\<close> doing on the five labels of the scenario what it does, the
  four entities (the two persons with the personality step 2 gave them, whatever it is) and
  the two relationships are projected to four nodes with the ids 1 to 4 in the order
  listed, two edges \<open>e1\<close> (\<open>WORKS_AT\<close>, from 1 to 3) and \<open>e2\<close> (\<open>MET\<close>, from 1 to 2),
  and a personality on the two persons and on no other node.
\<close>

theorem alice_bob_projection:
  assumes "up ''PERSON'' = ''PERSON''" and "up ''ORGANIZATION'' = ''ORGANIZATION''"
    and "up ''LOCATION'' = ''LOCATION''" and "up ''works_at'' = ''WORKS_AT''"
    and "up ''met'' = ''MET''"
  shows "format_for_st_link_analysis up
     (llm_json_output_of
        [JObj [(''name'', JStr ''Alice''), (''label'', JStr ''PERSON''), (''personality'', pa)],
         JObj [(''name'', JStr ''Bob''), (''label'', JStr ''PERSON''), (''personality'', pb)],
         JObj [(''name'', JStr ''Acme Corp''), (''label'', JStr ''ORGANIZATION'')],
         JObj [(''name'', JStr ''Paris''), (''label'', JStr ''LOCATION'')]]
        (JList
          [JObj [(''source'', JStr ''Alice''), (''label'', JStr ''works_at''),
                 (''target'', JStr ''Acme Corp'')],
           JObj [(''source'', JStr ''Alice''), (''label'', JStr ''met''), (''target'', JStr ''Bob'')]]))
   = Inr (\<lparr>nodes =
            [\<lparr>nd_id = 1, nd_label = ''PERSON'', nd_name = JStr ''Alice'', nd_personality = Some pa\<rparr>,
             \<lparr>nd_id = 2, nd_label = ''PERSON'', nd_name = JStr ''Bob'', nd_personality = Some pb\<rparr>,
             \<lparr>nd_id = 3, nd_label = ''ORGANIZATION'', nd_name = JStr ''Acme Corp'',
               nd_personality = None\<rparr>,
             \<lparr>nd_id = 4, nd_label = ''LOCATION'', nd_name = JStr ''Paris'', nd_personality = None\<rparr>],
           edges =
            [\<lparr>ed_id = ''e1'', ed_label = ''WORKS_AT'', ed_source = 1, ed_target = 3\<rparr>,
             \<lparr>ed_id = ''e2'', ed_label = ''MET'', ed_source = 1, ed_target = 2\<rparr>]\<rparr>,
          node_styles, {edge_style_of ''WORKS_AT'', edge_style_of ''MET''})"
  using assms
  by (simp add: format_for_st_link_analysis_def llm_json_output_of_def nodes_loop.simps
        edges_loop.simps node_data_of_def edge_fields_def py_in_def id_of_def
        str_int_1 str_int_2 insert_commute)

text \<open>The theorem of C9 with the ASCII instance of \<open>str.upper\<close>.\<close>

theorem alice_bob_projection_witness:
  "ascii_upper ''PERSON'' = ''PERSON'' \<and> ascii_upper ''ORGANIZATION'' = ''ORGANIZATION''
   \<and> ascii_upper ''LOCATION'' = ''LOCATION'' \<and> ascii_upper ''works_at'' = ''WORKS_AT''
   \<and> ascii_upper ''met'' = ''MET''
   \<and> format_for_st_link_analysis ascii_upper
     (llm_json_output_of
        [JObj [(''name'', JStr ''Alice''), (''label'', JStr ''PERSON''),
               (''personality'', JStr ''curious, outgoing'')],
         JObj [(''name'', JStr ''Bob''), (''label'', JStr ''PERSON''), (''personality'', JStr ''calm'')],
         JObj [(''name'', JStr ''Acme Corp''), (''label'', JStr ''ORGANIZATION'')],
         JObj [(''name'', JStr ''Paris''), (''label'', JStr ''LOCATION'')]]
        (JList
          [JObj [(''source'', JStr ''Alice''), (''label'', JStr ''works_at''),
                 (''target'', JStr ''Acme Corp'')],
           JObj [(''source'', JStr ''Alice''), (''label'', JStr ''met''), (''target'', JStr ''Bob'')]]))
   = Inr (\<lparr>nodes =
            [\<lparr>nd_id = 1, nd_label = ''PERSON'', nd_name = JStr ''Alice'',
               nd_personality = Some (JStr ''curious, outgoing'')\<rparr>,
             \<lparr>nd_id = 2, nd_label = ''PERSON'', nd_name = JStr ''Bob'',
               nd_personality = Some (JStr ''calm'')\<rparr>,
             \<lparr>nd_id = 3, nd_label = ''ORGANIZATION'', nd_name = JStr ''Acme Corp'',
               nd_personality = None\<rparr>,
             \<lparr>nd_id = 4, nd_label = ''LOCATION'', nd_name = JStr ''Paris'', nd_personality = None\<rparr>],
           edges =
            [\<lparr>ed_id = ''e1'', ed_label = ''WORKS_AT'', ed_source = 1, ed_target = 3\<rparr>,
             \<lparr>ed_id = ''e2'', ed_label = ''MET'', ed_source = 1, ed_target = 2\<rparr>]\<rparr>,
          node_styles, {edge_style_of ''WORKS_AT'', edge_style_of ''MET''})"
proof -
  have h1: "ascii_upper ''PERSON'' = ''PERSON''"
    by (simp add: ascii_upper_def ascii_upper_char_def)
  have h2: "ascii_upper ''ORGANIZATION'' = ''ORGANIZATION''"
    by (simp add: ascii_upper_def ascii_upper_char_def)
  have h3: "ascii_upper ''LOCATION'' = ''LOCATION''"
    by (simp add: ascii_upper_def ascii_upper_char_def)
  have h4: "ascii_upper ''works_at'' = ''WORKS_AT''"
    by (simp add: ascii_upper_def ascii_upper_char_def)
  have h5: "ascii_upper ''met'' = ''MET''"
    by (simp add: ascii_upper_def ascii_upper_char_def)
  from h1 h2 h3 h4 h5 alice_bob_projection [OF h1 h2 h3 h4 h5] show ?thesis by blast
qed

section \<open>Properties of the pipeline\<close>

lemma error_message_nonempty: "error_message f \<noteq> []"
  by (cases f) simp_all

lemma is_error_failed [simp]: "is_error (Some (error_message f))"
  by (simp add: is_error_def error_message_nonempty)

lemma is_error_None [simp]: "\<not> is_error None"
  by (simp add: is_error_def)

lemma fmt_Some [simp]: "fmt (Some m) = m"
  by (simp add: fmt_def)

lemma ask_failed:
  "ask p (Failed f) s =
     ((JNull, Some (error_message f)),
      s\<lparr>calls := calls s @ [p], shown := shown s @ client_shown (Failed f)\<rparr>)"
  by (simp add: ask_def)

lemma ask_parsed:
  "ask p (Parsed v) s = ((v, None), s\<lparr>calls := calls s @ [p]\<rparr>)"
  by (simp add: ask_def)

lemma step1_failed:
  "step1 doc (Failed f) s =
     (None, \<lparr>calls = calls s @ [Step1Prompt doc],
             shown = shown s @ client_shown (Failed f)
                     @ [StError (''Error in Step 1: '' @ error_message f)]\<rparr>)"
  by (simp add: step1_def ask_failed show_ui_def)

lemma step1_parsed:
  "step1 doc (Parsed v) s =
     (if truthy v then (Some v, \<lparr>calls = calls s @ [Step1Prompt doc], shown = shown s\<rparr>)
      else (None, \<lparr>calls = calls s @ [Step1Prompt doc],
                   shown = shown s @ [StWarning ''No entities found in the document.'']\<rparr>))"
  by (simp add: step1_def ask_parsed show_ui_def)

text \<open>
  Claim C1. When the call of step 1 fails, the run stops there: only that call was made,
  the page shows what the client wrote and then the error of step 1, and nothing else,
  so no graph. When the call returns an empty list (or any other value that is false),
  the run stops there too: only that call was made, and the page shows the warning that
  no entities were found and nothing else; no call of step 2 is made and no graph shown.
\<close>

theorem stage1_abort:
  "pipeline up doc (Failed f) r2 r3 r4 =
     (Stopped, \<lparr>calls = [Step1Prompt doc],
                shown = client_shown (Failed f) @ [StError (''Error in Step 1: '' @ error_message f)]\<rparr>)
   \<and> pipeline up doc (Parsed (JList [])) r2 r3 r4 =
     (Stopped, \<lparr>calls = [Step1Prompt doc],
                shown = [StWarning ''No entities found in the document.'']\<rparr>)
   \<and> (\<not> truthy v \<longrightarrow> pipeline up doc (Parsed v) r2 r3 r4 =
     (Stopped, \<lparr>calls = [Step1Prompt doc],
                shown = [StWarning ''No entities found in the document.'']\<rparr>))"
  by (simp add: pipeline_def step1_failed step1_parsed)

text \<open>The last part of the theorem of C1 on an empty dict.\<close>

theorem stage1_abort_witness:
  "\<not> truthy (JObj []) \<and> pipeline ascii_upper ''text'' (Parsed (JObj [])) (\<lambda>i. Parsed JNull) (Parsed JNull) (Parsed JNull) =
     (Stopped, \<lparr>calls = [Step1Prompt ''text''],
                shown = [StWarning ''No entities found in the document.'']\<rparr>)"
proof -
  have h: "\<not> truthy (JObj [])" by simp
  from stage1_abort [of ascii_upper "''text''" _ "\<lambda>i. Parsed JNull" "Parsed JNull" "Parsed JNull" "JObj []"] h
  show ?thesis by blast
qed

lemma entity_dict:
  assumes "entity n"
  obtains kvs nm l where "n = JObj kvs" and "map_of kvs ''name'' = Some (JStr nm)"
    and "map_of kvs ''label'' = Some (JStr l)"
proof -
  from assms obtain kvs where n: "n = JObj kvs" by (cases n) (simp_all add: entity_def)
  from assms n obtain nm where nm: "map_of kvs ''name'' = Some (JStr nm)"
    by (auto simp: entity_def field_def split: option.splits json.splits)
  from assms n obtain l where l: "map_of kvs ''label'' = Some (JStr l)"
    by (auto simp: entity_def field_def split: option.splits json.splits)
  from n nm l show thesis by (rule that)
qed

declare step2_loop.simps(2) [simp del]

lemma step2_loop_other:
  assumes "entity n" and "\<not> is_person n"
  shows "step2_loop doc r2 i (n # rest) final s = step2_loop doc r2 (Suc i) rest (final @ [n]) s"
proof -
  from assms(1) obtain kvs nm l where n: "n = JObj kvs"
    and l: "map_of kvs ''label'' = Some (JStr l)" by (rule entity_dict)
  from assms(2) n l have "l \<noteq> ''PERSON''" by (simp add: is_person_def field_def)
  with n l show ?thesis by (simp add: step2_loop.simps(2))
qed

lemma step2_loop_person:
  assumes "entity n" and "is_person n" and "reply_ok (r2 i)"
  shows "step2_loop doc r2 i (n # rest) final s =
     step2_loop doc r2 (Suc i) rest (final @ [with_personality n (personality_of_reply (r2 i))])
       (snd (ask (Step2Prompt (name_of n) doc) (r2 i) s))"
proof -
  from assms(1) obtain kvs nm l where n: "n = JObj kvs"
    and nm: "map_of kvs ''name'' = Some (JStr nm)"
    and l: "map_of kvs ''label'' = Some (JStr l)" by (rule entity_dict)
  from assms(2) n l have p: "l = ''PERSON''" by (simp add: is_person_def field_def)
  from n nm have name: "name_of n = JStr nm" by (simp add: name_of_def field_def)
  show ?thesis
  proof (cases "r2 i")
    case (Failed f)
    with n nm l p name show ?thesis
      by (simp add: step2_loop.simps(2) ask_failed with_personality_def personality_of_reply_def)
  next
    case (Parsed v)
    with assms(3) obtain kv2 where v: "v = JObj kv2" by (cases v) simp_all
    with Parsed n nm l p name show ?thesis
      by (simp add: step2_loop.simps(2) ask_parsed with_personality_def personality_of_reply_def
            field_def)
  qed
qed

lemma step2_loop_enriched:
  assumes "\<forall>n\<in>set ns. entity n"
    and "\<forall>p\<in>set (enumerate i ns). is_person (snd p) \<longrightarrow> reply_ok (r2 (fst p))"
  shows "\<exists>s'. step2_loop doc r2 i ns final s =
           (Inr (final @ map (\<lambda>p. enriched r2 (fst p) (snd p)) (enumerate i ns)), s')"
  using assms
proof (induction ns arbitrary: i final s)
  case Nil
  then show ?case by simp
next
  case (Cons n ns)
  from Cons.prems(1) have e: "entity n" and es: "\<forall>n\<in>set ns. entity n" by simp_all
  from Cons.prems(2) have rs: "\<forall>p\<in>set (enumerate (Suc i) ns). is_person (snd p) \<longrightarrow> reply_ok (r2 (fst p))"
    by simp
  show ?case
  proof (cases "is_person n")
    case False
    then have en: "enriched r2 i n = n" by (simp add: enriched_def is_person_def)
    from Cons.IH [OF es rs, of "final @ [n]" s]
    obtain s' where "step2_loop doc r2 (Suc i) ns (final @ [n]) s =
        (Inr ((final @ [n]) @ map (\<lambda>p. enriched r2 (fst p) (snd p)) (enumerate (Suc i) ns)), s')"
      by blast
    with False en show ?thesis by (simp add: step2_loop_other [OF e False])
  next
    case True
    with Cons.prems(2) have ok: "reply_ok (r2 i)" by simp
    from True have en: "enriched r2 i n = with_personality n (personality_of_reply (r2 i))"
      by (simp add: enriched_def is_person_def)
    from Cons.IH [OF es rs, of "final @ [with_personality n (personality_of_reply (r2 i))]"
        "snd (ask (Step2Prompt (name_of n) doc) (r2 i) s)"]
    obtain s' where "step2_loop doc r2 (Suc i) ns
          (final @ [with_personality n (personality_of_reply (r2 i))])
          (snd (ask (Step2Prompt (name_of n) doc) (r2 i) s)) =
        (Inr ((final @ [with_personality n (personality_of_reply (r2 i))]) @
              map (\<lambda>p. enriched r2 (fst p) (snd p)) (enumerate (Suc i) ns)), s')"
      by blast
    with en show ?thesis
      by (simp add: step2_loop_person [where ?r2.0 = r2 and i = i, OF e True ok])
  qed
qed

lemma field_with_personality:
  "is_dict n \<Longrightarrow> k \<noteq> ''personality'' \<Longrightarrow> field (with_personality n p) k = field n k"
  by (cases n) (simp_all add: with_personality_def field_def update_conv')

lemma is_dict_with_personality: "is_dict n \<Longrightarrow> is_dict (with_personality n p)"
  by (cases n) (simp_all add: with_personality_def)

lemma entity_with_personality: "entity n \<Longrightarrow> entity (with_personality n p)"
  by (simp add: entity_def is_dict_with_personality field_with_personality)

lemma entity_enriched: "entity n \<Longrightarrow> entity (enriched r2 j n)"
  by (simp add: enriched_def entity_with_personality)

lemma name_of_enriched: "entity n \<Longrightarrow> name_of (enriched r2 j n) = name_of n"
  by (simp add: enriched_def name_of_def field_with_personality entity_def)

lemma entity_getitem_name: "entity n \<Longrightarrow> py_getitem n ''name'' = Inr (name_of n)"
  by (erule entity_dict) (simp add: name_of_def field_def)

lemma names_of_entities: "\<forall>n\<in>set xs. entity n \<Longrightarrow> names_of xs = Inr (map name_of xs)"
  by (induction xs) (simp_all add: entity_getitem_name)

lemma entity_node_ok: "entity n \<Longrightarrow> node_ok n"
  by (auto simp: entity_def node_ok_def absent_or_def split: option.splits json.splits)

lemma step3_calls:
  assumes "names_of final = Inr names"
  shows "\<exists>fe evs. step3 doc r3 final s =
            (Inr fe, s\<lparr>calls := calls s @ [Step3Prompt names doc], shown := shown s @ evs\<rparr>)
          \<and> (case r3 of Parsed v \<Rightarrow> fe = v \<and> evs = []
              | Failed f \<Rightarrow> fe = JList [] \<and>
                  evs = client_shown (Failed f) @ [StError (''Error in Step 3: '' @ error_message f)])"
proof (cases r3)
  case (Parsed v)
  with assms show ?thesis by (simp add: step3_def ask_parsed)
next
  case (Failed f)
  with assms show ?thesis by (simp add: step3_def ask_failed show_ui_def)
qed

lemma step4_calls: "calls (snd (step4 doc r4 g s)) = calls s @ [Step4Prompt doc g]"
proof (cases r4)
  case (Parsed v)
  then show ?thesis
    by (cases v) (simp_all add: step4_def ask_parsed show_ui_def Let_def)
next
  case (Failed f)
  then show ?thesis by (simp add: step4_def ask_failed show_ui_def Let_def)
qed

lemma step4_shown: "\<exists>evs. shown (snd (step4 doc r4 g s)) = shown s @ evs"
proof (cases r4)
  case (Parsed v)
  then show ?thesis
    by (cases v) (simp_all add: step4_def ask_parsed show_ui_def Let_def)
next
  case (Failed f)
  then show ?thesis by (simp add: step4_def ask_failed show_ui_def Let_def)
qed

lemma step4_reply_ok: "reply_ok r4 \<Longrightarrow> fst (step4 doc r4 g s) = Inr ()"
proof (cases r4)
  case (Parsed v)
  assume "reply_ok r4"
  with Parsed obtain kvs where "v = JObj kvs" by (cases v) simp_all
  with Parsed show ?thesis by (simp add: step4_def ask_parsed show_ui_def Let_def)
next
  case (Failed f)
  then show ?thesis by (simp add: step4_def ask_failed show_ui_def Let_def)
qed

lemma render_calls: "calls (snd (render up g s)) = calls s"
  by (simp add: render_def show_ui_def Let_def split: sum.splits prod.splits)

lemma render_not_stopped: "fst (render up g s) \<noteq> Stopped"
  by (simp add: render_def show_ui_def Let_def split: sum.splits prod.splits)

lemma step2_entities:
  assumes ents: "\<forall>n\<in>set ns. entity n"
    and oks: "\<forall>j<length ns. is_person (ns ! j) \<longrightarrow> reply_ok (r2 j)"
  shows "\<exists>s'. step2 doc r2 (JList ns) s =
           (Inr (map (\<lambda>p. enriched r2 (fst p) (snd p)) (enumerate 0 ns)), s')"
proof -
  have "\<forall>p\<in>set (enumerate 0 ns). is_person (snd p) \<longrightarrow> reply_ok (r2 (fst p))"
  proof (intro ballI impI)
    fix p assume p: "p \<in> set (enumerate 0 ns)" and per: "is_person (snd p)"
    from p have "fst p < length ns" and "ns ! fst p = snd p"
      by (simp_all add: in_set_enumerate_eq)
    with per oks show "reply_ok (r2 (fst p))" by simp
  qed
  from step2_loop_enriched [OF ents this, of doc "[]" s]
  show ?thesis by (simp add: step2_def)
qed

lemma enriched_nth:
  "j < length ns \<Longrightarrow>
     map (\<lambda>p. enriched r2 (fst p) (snd p)) (enumerate 0 ns) ! j = enriched r2 j (ns ! j)"
  by (simp add: nth_enumerate_eq)

lemma enriched_names:
  assumes "\<forall>n\<in>set ns. entity n"
  shows "map name_of (map (\<lambda>p. enriched r2 (fst p) (snd p)) (enumerate i ns)) = map name_of ns"
  using assms by (induction ns arbitrary: i) (simp_all add: name_of_enriched)

lemma enriched_entities:
  assumes "\<forall>n\<in>set ns. entity n"
  shows "\<forall>n\<in>set (map (\<lambda>p. enriched r2 (fst p) (snd p)) (enumerate i ns)). entity n"
  using assms by (induction ns arbitrary: i) (simp_all add: entity_enriched)

lemma pipeline_from_step3:
  assumes "step1 doc r1 \<lparr>calls = [], shown = []\<rparr> = (Some nodes_list, s1)"
    and "step2 doc r2 nodes_list s1 = (Inr final, s2)"
    and "step3 doc r3 final s2 = (Inr fe, s3)"
  shows "pipeline up doc r1 r2 r3 r4 =
     (case fst (step4 doc r4 (llm_json_output_of final fe) s3) of
        Inl e \<Rightarrow> (Crashed e, snd (step4 doc r4 (llm_json_output_of final fe) s3))
      | Inr u \<Rightarrow> render up (llm_json_output_of final fe)
                  (snd (step4 doc r4 (llm_json_output_of final fe) s3)))"
  using assms by (simp add: pipeline_def split: prod.splits sum.splits)

text \<open>
  Claim C8. Let the step-1 list hold entities (dicts with a name and a label that are
  strings), and let the reply to every call made for a person be a failure or a parsed
  dict. Then step 2 returns, with as many entities as it was given and in the same order:
  at each position the entity itself, and for a person the entity with the personality of
  its reply, which is the empty string when its call failed. No name changes. The run is
  not stopped, and the call of step 3 is made with the names of all the entities in their
  order.
\<close>

theorem personality_failures_absorbed:
  assumes ents: "\<forall>n\<in>set ns. entity n"
    and oks: "\<forall>j<length ns. is_person (ns ! j) \<longrightarrow> reply_ok (r2 j)"
  shows "\<exists>final s'.
     step2 doc r2 (JList ns) s = (Inr final, s')
     \<and> length final = length ns
     \<and> (\<forall>j<length ns. final ! j = enriched r2 j (ns ! j))
     \<and> (\<forall>j<length ns. \<forall>f. is_person (ns ! j) \<and> r2 j = Failed f \<longrightarrow>
            final ! j = with_personality (ns ! j) (JStr []))
     \<and> (\<forall>j<length ns. \<not> is_person (ns ! j) \<longrightarrow> final ! j = ns ! j)
     \<and> map name_of final = map name_of ns
     \<and> (ns \<noteq> [] \<longrightarrow>
          fst (pipeline up doc (Parsed (JList ns)) r2 r3 r4) \<noteq> Stopped
          \<and> Step3Prompt (map name_of ns) doc
               \<in> set (calls (snd (pipeline up doc (Parsed (JList ns)) r2 r3 r4))))"
proof -
  let ?final = "map (\<lambda>p. enriched r2 (fst p) (snd p)) (enumerate 0 ns)"
  obtain s' where s2: "step2 doc r2 (JList ns) s = (Inr ?final, s')"
    using step2_entities [OF ents oks] by blast
  have len: "length ?final = length ns" by simp
  have nth: "\<forall>j<length ns. ?final ! j = enriched r2 j (ns ! j)"
  proof (intro allI impI)
    fix j assume "j < length ns"
    then show "?final ! j = enriched r2 j (ns ! j)" by (rule enriched_nth)
  qed
  have fail: "\<forall>j<length ns. \<forall>f. is_person (ns ! j) \<and> r2 j = Failed f \<longrightarrow>
            ?final ! j = with_personality (ns ! j) (JStr [])"
  proof (intro allI impI)
    fix j f assume j: "j < length ns" and a: "is_person (ns ! j) \<and> r2 j = Failed f"
    from j have "?final ! j = enriched r2 j (ns ! j)" by (rule enriched_nth)
    also from a have "\<dots> = with_personality (ns ! j) (JStr [])"
      by (simp add: enriched_def is_person_def personality_of_reply_def)
    finally show "?final ! j = with_personality (ns ! j) (JStr [])" .
  qed
  have other: "\<forall>j<length ns. \<not> is_person (ns ! j) \<longrightarrow> ?final ! j = ns ! j"
  proof (intro allI impI)
    fix j assume j: "j < length ns" and a: "\<not> is_person (ns ! j)"
    from j have "?final ! j = enriched r2 j (ns ! j)" by (rule enriched_nth)
    also from a have "\<dots> = ns ! j" by (simp add: enriched_def is_person_def)
    finally show "?final ! j = ns ! j" .
  qed
  have names: "map name_of ?final = map name_of ns"
    by (rule enriched_names [OF ents])
  have run: "ns \<noteq> [] \<longrightarrow>
          fst (pipeline up doc (Parsed (JList ns)) r2 r3 r4) \<noteq> Stopped
          \<and> Step3Prompt (map name_of ns) doc
               \<in> set (calls (snd (pipeline up doc (Parsed (JList ns)) r2 r3 r4)))"
  proof
    assume ne: "ns \<noteq> []"
    let ?s1 = "\<lparr>calls = [Step1Prompt doc], shown = []\<rparr>"
    from ne have one: "step1 doc (Parsed (JList ns)) \<lparr>calls = [], shown = []\<rparr> = (Some (JList ns), ?s1)"
      by (simp add: step1_parsed)
    obtain s2 where two: "step2 doc r2 (JList ns) ?s1 = (Inr ?final, s2)"
      using step2_entities [OF ents oks] by blast
    have "names_of ?final = Inr (map name_of ?final)"
      by (rule names_of_entities [OF enriched_entities [OF ents]])
    with names have nm: "names_of ?final = Inr (map name_of ns)" by simp
    from step3_calls [OF nm, of doc r3 s2]
    obtain fe evs where three: "step3 doc r3 ?final s2 =
        (Inr fe, s2\<lparr>calls := calls s2 @ [Step3Prompt (map name_of ns) doc], shown := shown s2 @ evs\<rparr>)"
      by blast
    let ?s3 = "s2\<lparr>calls := calls s2 @ [Step3Prompt (map name_of ns) doc], shown := shown s2 @ evs\<rparr>"
    let ?g = "llm_json_output_of ?final fe"
    note p = pipeline_from_step3 [OF one two three, of up r4]
    have c4: "calls (snd (step4 doc r4 ?g ?s3)) = calls ?s3 @ [Step4Prompt doc ?g]"
      by (rule step4_calls)
    show "fst (pipeline up doc (Parsed (JList ns)) r2 r3 r4) \<noteq> Stopped
          \<and> Step3Prompt (map name_of ns) doc
               \<in> set (calls (snd (pipeline up doc (Parsed (JList ns)) r2 r3 r4)))"
    proof (cases "fst (step4 doc r4 ?g ?s3)")
      case (Inl e)
      with p c4 show ?thesis by simp
    next
      case (Inr u)
      with p c4 show ?thesis by (simp add: render_calls render_not_stopped)
    qed
  qed
  from s2 len nth fail other names run show ?thesis by blast
qed

lemma example_entities_ok: "list_all entity example_entities"
  by (simp add: example_entities_def person_def entity_def field_def)

text \<open>The theorem of C8 on two entities, with every call failing.\<close>

theorem personality_failures_absorbed_witness:
  "list_all entity example_entities \<and> reply_ok timed_out \<and> example_entities \<noteq> []
   \<and> (\<exists>final s'.
     step2 ''Alice works at Acme Corp.'' (\<lambda>j. timed_out) (JList example_entities)
        \<lparr>calls = [], shown = []\<rparr> = (Inr final, s')
     \<and> length final = length example_entities
     \<and> (\<forall>j<length example_entities. final ! j = enriched (\<lambda>j. timed_out) j (example_entities ! j))
     \<and> (\<forall>j<length example_entities. \<forall>f. is_person (example_entities ! j) \<and> timed_out = Failed f \<longrightarrow>
            final ! j = with_personality (example_entities ! j) (JStr []))
     \<and> (\<forall>j<length example_entities. \<not> is_person (example_entities ! j) \<longrightarrow>
            final ! j = example_entities ! j)
     \<and> map name_of final = map name_of example_entities
     \<and> (example_entities \<noteq> [] \<longrightarrow>
          fst (pipeline ascii_upper ''Alice works at Acme Corp.'' (Parsed (JList example_entities))
                 (\<lambda>j. timed_out) timed_out timed_out) \<noteq> Stopped
          \<and> Step3Prompt (map name_of example_entities) ''Alice works at Acme Corp.''
               \<in> set (calls (snd (pipeline ascii_upper ''Alice works at Acme Corp.''
                    (Parsed (JList example_entities)) (\<lambda>j. timed_out) timed_out timed_out)))))"
proof -
  have ents: "\<forall>n\<in>set example_entities. entity n"
    by (rule list_all_ball [OF example_entities_ok])
  have ok: "reply_ok timed_out" by (simp add: timed_out_def)
  then have oks: "\<forall>j<length example_entities. is_person (example_entities ! j) \<longrightarrow>
      reply_ok ((\<lambda>j. timed_out) j)" by simp
  have ne: "example_entities \<noteq> []" by (simp add: example_entities_def)
  from example_entities_ok ok ne
    personality_failures_absorbed [OF ents oks, of "''Alice works at Acme Corp.''"
      "\<lparr>calls = [], shown = []\<rparr>" ascii_upper timed_out timed_out]
  show ?thesis by blast
qed

lemma str_int_0: "str_int 0 = ''0''"
  by (simp add: str_int_def digit_char_def)

lemmas run_defs = pipeline_def step1_def step2_def step2_loop.simps step3_def step4_def render_def
  ask_def show_ui_def is_error_def fmt_def llm_json_output_of_def format_for_st_link_analysis_def
  nodes_loop.simps edges_loop.simps node_data_of_def edge_fields_def py_in_def id_of_def
  ascii_upper_def ascii_upper_char_def str_int_0 str_int_1 str_int_2 Let_def

text \<open>
  Claim C2 as it was stated fails on how the failure is reported. In this run the call of
  step 3 times out and every other call succeeds: the run completes with two nodes and no
  edge, and the page shows the failure through \<open>st.error\<close>; no warning is shown at all.
\<close>

theorem stage3_error_counterexample:
  "pipeline ascii_upper ''Alice met Bob.'' (Parsed (JList [person ''Alice'', person ''Bob'']))
      (\<lambda>j. Parsed (JObj [(''personality'', JStr ''kind'')])) timed_out scores
   = (Completed,
      \<lparr>calls =
         [Step1Prompt ''Alice met Bob.'',
          Step2Prompt (JStr ''Alice'') ''Alice met Bob.'',
          Step2Prompt (JStr ''Bob'') ''Alice met Bob.'',
          Step3Prompt [JStr ''Alice'', JStr ''Bob''] ''Alice met Bob.'',
          Step4Prompt ''Alice met Bob.''
            (JObj [(''nodes'', JList
                      [JObj [(''name'', JStr ''Alice''), (''label'', JStr ''PERSON''),
                             (''personality'', JStr ''kind'')],
                       JObj [(''name'', JStr ''Bob''), (''label'', JStr ''PERSON''),
                             (''personality'', JStr ''kind'')]]),
                   (''edges'', JList [])])],
       shown =
         [StError ''Error in Step 3: Error: Network request failed. timed out'',
          StMarkdown ''---'',
          StSubheader ''Extraction Quality Analysis'',
          StMetric ''Correctness Score'' (JInt 9),
          StMetric ''Completeness Score'' (JInt 8),
          StMarkdown ''---'',
          StSuccess ''Graph generation complete! 2 nodes, 0 edges.'',
          StLinkAnalysis
            \<lparr>nodes =
               [\<lparr>nd_id = 1, nd_label = ''PERSON'', nd_name = JStr ''Alice'',
                 nd_personality = Some (JStr ''kind'')\<rparr>,
                \<lparr>nd_id = 2, nd_label = ''PERSON'', nd_name = JStr ''Bob'',
                 nd_personality = Some (JStr ''kind'')\<rparr>],
             edges = []\<rparr>
            node_styles {}]\<rparr>)"
  by (simp add: run_defs person_def timed_out_def scores_def)

text \<open>
  Claim C4 as it was stated fails: the graph given to step 4 is built from what step 3
  returned, as it is. Here step 3 returns a relationship to \<open>Bob\<close>, who is no entity of
  the run, with the label \<open>met\<close> in lower case, and both are in the graph of the fourth
  call.
\<close>

theorem stage4_graph_counterexample:
  "calls (snd (pipeline ascii_upper ''Alice met Bob.'' (Parsed (JList [person ''Alice'']))
      (\<lambda>j. Parsed (JObj [(''personality'', JStr ''kind'')]))
      (Parsed (JList [JObj [(''source'', JStr ''Alice''), (''label'', JStr ''met''),
                            (''target'', JStr ''Bob'')]]))
      scores))
   = [Step1Prompt ''Alice met Bob.'',
      Step2Prompt (JStr ''Alice'') ''Alice met Bob.'',
      Step3Prompt [JStr ''Alice''] ''Alice met Bob.'',
      Step4Prompt ''Alice met Bob.''
        (JObj [(''nodes'', JList
                  [JObj [(''name'', JStr ''Alice''), (''label'', JStr ''PERSON''),
                         (''personality'', JStr ''kind'')]]),
               (''edges'', JList
                  [JObj [(''source'', JStr ''Alice''), (''label'', JStr ''met''),
                         (''target'', JStr ''Bob'')]])])]"
  by (simp add: run_defs person_def scores_def)

lemma render_readable:
  assumes "format_for_st_link_analysis up g = Inr (els, sty, est)"
  shows "render up g s =
     (Completed,
      s\<lparr>shown := shown s @
          [StMarkdown ''---'',
           StSuccess (''Graph generation complete! '' @ str_int (int (length (nodes els)))
                      @ '' nodes, '' @ str_int (int (length (edges els))) @ '' edges.''),
           StLinkAnalysis els sty est]\<rparr>)"
  using assms by (simp add: render_def show_ui_def Let_def)

text \<open>
  Claim C2, as amended. Let step 1 return a non-empty list of entities, let the reply to
  every call made for a person be a failure or a parsed dict, let the call of step 3 fail,
  and let the reply to the evaluation call be a failure or a parsed dict. Then the run
  completes. The graph given to step 4 and to the projection holds the entities of step 2
  in their order and an empty list of relationships; the projection returns the nodes of
  those entities and no edge; the page shows the failure of step 3 as an error (through
  \<open>st.error\<close>, not as a warning), then the summary line and the graph.
\<close>

theorem stage3_failure_absorbed:
  assumes ents: "\<forall>n\<in>set ns. entity n" and ne: "ns \<noteq> []"
    and oks: "\<forall>j<length ns. is_person (ns ! j) \<longrightarrow> reply_ok (r2 j)"
    and ok4: "reply_ok r4"
  shows "\<exists>s final els.
     pipeline up doc (Parsed (JList ns)) r2 (Failed f) r4 = (Completed, s)
     \<and> length final = length ns
     \<and> (\<forall>j<length ns. final ! j = enriched r2 j (ns ! j))
     \<and> Step4Prompt doc (llm_json_output_of final (JList [])) \<in> set (calls s)
     \<and> StError (''Error in Step 3: '' @ error_message f) \<in> set (shown s)
     \<and> format_for_st_link_analysis up (llm_json_output_of final (JList [])) = Inr (els, node_styles, {})
     \<and> nodes els = map (\<lambda>(i, n). node_of up i n) (number_from 1 (first_occurrences final))
     \<and> edges els = []
     \<and> StSuccess (''Graph generation complete! '' @ str_int (int (length (nodes els)))
                  @ '' nodes, '' @ str_int (int (length (edges els))) @ '' edges.'') \<in> set (shown s)
     \<and> StLinkAnalysis els node_styles {} \<in> set (shown s)"
proof -
  let ?final = "map (\<lambda>p. enriched r2 (fst p) (snd p)) (enumerate 0 ns)"
  let ?s1 = "\<lparr>calls = [Step1Prompt doc], shown = []\<rparr>"
  define g where "g = llm_json_output_of ?final (JList [])"
  define els where "els =
     \<lparr>nodes = map (\<lambda>(i, n). node_of up i n) (number_from 1 (first_occurrences ?final)),
      edges = []\<rparr>"
  from ne have one: "step1 doc (Parsed (JList ns)) \<lparr>calls = [], shown = []\<rparr> = (Some (JList ns), ?s1)"
    by (simp add: step1_parsed)
  obtain s2 where two: "step2 doc r2 (JList ns) ?s1 = (Inr ?final, s2)"
    using step2_entities [OF ents oks] by blast
  have fents: "\<forall>n\<in>set ?final. entity n" by (rule enriched_entities [OF ents])
  have nm: "names_of ?final = Inr (map name_of ?final)"
    by (rule names_of_entities [OF fents])
  define evs where "evs = client_shown (Failed f) @ [StError (''Error in Step 3: '' @ error_message f)]"
  define s3 where "s3 = s2\<lparr>calls := calls s2 @ [Step3Prompt (map name_of ?final) doc],
                           shown := shown s2 @ evs\<rparr>"
  from step3_calls [OF nm, of doc "Failed f" s2]
  have three: "step3 doc (Failed f) ?final s2 = (Inr (JList []), s3)"
    unfolding s3_def evs_def by auto
  define s4 where "s4 = snd (step4 doc r4 g s3)"
  have four: "fst (step4 doc r4 g s3) = Inr ()" by (rule step4_reply_ok [OF ok4])
  have c4: "calls s4 = calls s3 @ [Step4Prompt doc g]"
    unfolding s4_def by (rule step4_calls)
  obtain evs4 where sh4: "shown s4 = shown s3 @ evs4"
    unfolding s4_def using step4_shown by blast
  have sh3: "shown s3 = shown s2 @ evs" by (simp add: s3_def)
  have nok: "\<forall>n\<in>set ?final. node_ok n"
  proof
    fix n assume "n \<in> set ?final"
    with fents have "entity n" by (rule bspec)
    then show "node_ok n" by (rule entity_node_ok)
  qed
  have eok: "\<forall>e\<in>set ([]::json list). edge_ok e" by simp
  have fmt: "format_for_st_link_analysis up g = Inr (els, node_styles, {})"
    unfolding g_def els_def using format_readable [OF nok eok, of up] by simp
  define s where "s = s4\<lparr>shown := shown s4 @
          [StMarkdown ''---'',
           StSuccess (''Graph generation complete! '' @ str_int (int (length (nodes els)))
                      @ '' nodes, '' @ str_int (int (length (edges els))) @ '' edges.''),
           StLinkAnalysis els node_styles {}]\<rparr>"
  have "pipeline up doc (Parsed (JList ns)) r2 (Failed f) r4 =
     (case fst (step4 doc r4 g s3) of
        Inl e \<Rightarrow> (Crashed e, snd (step4 doc r4 g s3))
      | Inr u \<Rightarrow> render up g (snd (step4 doc r4 g s3)))"
    unfolding g_def by (rule pipeline_from_step3 [OF one two three])
  then have run: "pipeline up doc (Parsed (JList ns)) r2 (Failed f) r4 = (Completed, s)"
    by (simp only: four sum.case render_readable [OF fmt] s_def s4_def)
  have len: "length ?final = length ns" by simp
  have nth: "\<forall>j<length ns. ?final ! j = enriched r2 j (ns ! j)"
  proof (intro allI impI)
    fix j assume "j < length ns"
    then show "?final ! j = enriched r2 j (ns ! j)" by (rule enriched_nth)
  qed
  have p4: "Step4Prompt doc g \<in> set (calls s)" by (simp add: s_def c4)
  have "StError (''Error in Step 3: '' @ error_message f) \<in> set evs" by (simp add: evs_def)
  then have e3: "StError (''Error in Step 3: '' @ error_message f) \<in> set (shown s)"
    by (simp add: s_def sh4 sh3)
  have nd: "nodes els = map (\<lambda>(i, n). node_of up i n) (number_from 1 (first_occurrences ?final))"
    by (simp add: els_def)
  have ed: "edges els = []" by (simp add: els_def)
  have su: "StSuccess (''Graph generation complete! '' @ str_int (int (length (nodes els)))
                  @ '' nodes, '' @ str_int (int (length (edges els))) @ '' edges.'') \<in> set (shown s)"
    by (simp add: s_def)
  have la: "StLinkAnalysis els node_styles {} \<in> set (shown s)" by (simp add: s_def)
  from run len nth p4 [unfolded g_def] e3 fmt [unfolded g_def] nd ed su la show ?thesis by blast
qed

text \<open>The theorem of C2 on two entities, with every call but the evaluation failing.\<close>

theorem stage3_failure_absorbed_witness:
  "list_all entity example_entities \<and> example_entities \<noteq> [] \<and> reply_ok timed_out \<and> reply_ok scores
   \<and> (\<exists>s final els.
     pipeline ascii_upper ''Alice works at Acme Corp.'' (Parsed (JList example_entities))
        (\<lambda>j. timed_out) (Failed (NetworkFailure ''timed out'')) scores = (Completed, s)
     \<and> length final = length example_entities
     \<and> (\<forall>j<length example_entities. final ! j = enriched (\<lambda>j. timed_out) j (example_entities ! j))
     \<and> Step4Prompt ''Alice works at Acme Corp.'' (llm_json_output_of final (JList [])) \<in> set (calls s)
     \<and> StError (''Error in Step 3: '' @ error_message (NetworkFailure ''timed out'')) \<in> set (shown s)
     \<and> format_for_st_link_analysis ascii_upper (llm_json_output_of final (JList []))
           = Inr (els, node_styles, {})
     \<and> nodes els = map (\<lambda>(i, n). node_of ascii_upper i n) (number_from 1 (first_occurrences final))
     \<and> edges els = []
     \<and> StSuccess (''Graph generation complete! '' @ str_int (int (length (nodes els)))
                  @ '' nodes, '' @ str_int (int (length (edges els))) @ '' edges.'') \<in> set (shown s)
     \<and> StLinkAnalysis els node_styles {} \<in> set (shown s))"
proof -
  have ents: "\<forall>n\<in>set example_entities. entity n"
    by (rule list_all_ball [OF example_entities_ok])
  have ok: "reply_ok timed_out" by (simp add: timed_out_def)
  then have oks: "\<forall>j<length example_entities. is_person (example_entities ! j) \<longrightarrow>
      reply_ok ((\<lambda>j. timed_out) j)" by simp
  have ne: "example_entities \<noteq> []" by (simp add: example_entities_def)
  have ok4: "reply_ok scores" by (simp add: scores_def)
  from example_entities_ok ne ok ok4
    stage3_failure_absorbed [OF ents ne oks ok4, of ascii_upper "''Alice works at Acme Corp.''"
      "NetworkFailure ''timed out''"]
  show ?thesis by blast
qed

lemma node_data_of_id: "node_data_of up n v c = Inr d \<Longrightarrow> nd_id d = c"
  by (auto simp: node_data_of_def split: sum.splits if_splits)

lemma nodes_loop_ids:
  "nodes_loop up ns m c acc = Inr (m', out) \<Longrightarrow> ran m \<subseteq> nd_id ` set acc \<Longrightarrow>
     ran m' \<subseteq> nd_id ` set out"
proof (induction ns arbitrary: m c acc)
  case Nil
  then show ?case by (simp add: nodes_loop.simps(1))
next
  case (Cons n ns)
  from Cons.prems(1) obtain v where v: "py_get n ''name'' JNull = Inr v"
    by (cases "py_get n ''name'' JNull") (simp_all add: nodes_loop.simps(2))
  show ?case
  proof (cases "truthy v")
    case False
    with Cons.prems(1) v have "nodes_loop up ns m c acc = Inr (m', out)"
      by (simp add: nodes_loop.simps(2))
    then show ?thesis using Cons.prems(2) by (rule Cons.IH)
  next
    case True
    with Cons.prems(1) v obtain k where k: "py_hash_key v = Inr k"
      by (cases "py_hash_key v") (simp_all add: nodes_loop.simps(2))
    show ?thesis
    proof (cases "m k")
      case (Some i)
      with Cons.prems(1) v True k have "nodes_loop up ns m c acc = Inr (m', out)"
        by (simp add: nodes_loop.simps(2))
      then show ?thesis using Cons.prems(2) by (rule Cons.IH)
    next
      case None
      with Cons.prems(1) v True k obtain d where d: "node_data_of up n v c = Inr d"
        by (cases "node_data_of up n v c") (simp_all add: nodes_loop.simps(2))
      with Cons.prems(1) v True k None
      have run: "nodes_loop up ns (m(k \<mapsto> c)) (c + 1) (acc @ [d]) = Inr (m', out)"
        by (simp add: nodes_loop.simps(2))
      from d have "nd_id d = c" by (rule node_data_of_id)
      with None Cons.prems(2) have "ran (m(k \<mapsto> c)) \<subseteq> nd_id ` set (acc @ [d])"
        by (auto simp: ran_map_upd)
      with run show ?thesis by (rule Cons.IH)
    qed
  qed
qed

lemma py_upper_Inr: "py_upper up l = Inr lbl \<Longrightarrow> \<exists>t. lbl = up t"
  by (cases l) auto

lemma id_of_ran: "id_of m x = Inr i \<Longrightarrow> i \<in> ran m"
  by (auto simp: id_of_def ran_def split: sum.splits option.splits)

lemma edge_fields_accepted:
  assumes "edge_fields up e m = Inr (lbl, Some (src, tgt))"
  shows "src \<in> ran m \<and> tgt \<in> ran m \<and> (\<exists>t. lbl = up t)"
proof -
  from assms obtain sn tn l where
    u: "py_upper up l = Inr lbl" and s: "id_of m sn = Inr src" and t: "id_of m tn = Inr tgt"
    by (auto simp: edge_fields_def split: sum.splits bool.splits)
  from u s t show ?thesis by (simp add: py_upper_Inr id_of_ran)
qed

lemma edges_loop_checked:
  "edges_loop up es m c acc L = Inr (out, L') \<Longrightarrow> \<forall>d\<in>set acc. edge_checked up m d \<Longrightarrow>
     \<forall>d\<in>set out. edge_checked up m d"
proof (induction es arbitrary: c acc L)
  case Nil
  then show ?case by (simp add: edges_loop.simps(1))
next
  case (Cons e es)
  from Cons.prems(1) obtain lbl x where f: "edge_fields up e m = Inr (lbl, x)"
    by (cases "edge_fields up e m") (auto simp: edges_loop.simps(2))
  show ?case
  proof (cases x)
    case None
    with Cons.prems(1) f have "edges_loop up es m c acc L = Inr (out, L')"
      by (simp add: edges_loop.simps(2))
    then show ?thesis using Cons.prems(2) by (rule Cons.IH)
  next
    case (Some st)
    obtain src tgt where st: "st = (src, tgt)" by (cases st)
    let ?d = "\<lparr>ed_id = ''e'' @ str_int c, ed_label = lbl, ed_source = src, ed_target = tgt\<rparr>"
    from Cons.prems(1) f Some st
    have run: "edges_loop up es m (c + 1) (acc @ [?d]) (insert lbl L) = Inr (out, L')"
      by (simp add: edges_loop.simps(2))
    from f Some st have "edge_checked up m ?d"
      using edge_fields_accepted [of up e m lbl src tgt] by (simp add: edge_checked_def)
    with Cons.prems(2) have "\<forall>d\<in>set (acc @ [?d]). edge_checked up m d" by simp
    with run show ?thesis by (rule Cons.IH)
  qed
qed

lemma id_has_node:
  assumes "x \<in> ran m" and "ran m \<subseteq> nd_id ` S"
  shows "\<exists>n\<in>S. nd_id n = x"
proof -
  from assms have "x \<in> nd_id ` S" by (rule subsetD [rotated])
  then obtain n where n: "n \<in> S" and x: "x = nd_id n" by (rule imageE)
  from x have "nd_id n = x" by simp
  with n show ?thesis by (rule bexI [rotated])
qed

lemma format_checked:
  assumes "format_for_st_link_analysis up g = Inr (els, sty, est)"
  shows "\<forall>d\<in>set (edges els).
           (\<exists>n\<in>set (nodes els). nd_id n = ed_source d)
           \<and> (\<exists>n\<in>set (nodes els). nd_id n = ed_target d)
           \<and> (\<exists>t. ed_label d = up t)"
proof -
  from assms obtain node_objs edge_objs m L where
    n: "nodes_loop up node_objs Map.empty 1 [] = Inr (m, nodes els)"
    and e: "edges_loop up edge_objs m 1 [] {} = Inr (edges els, L)"
    by (auto simp: format_for_st_link_analysis_def split: sum.splits prod.splits)
  from n have r: "ran m \<subseteq> nd_id ` set (nodes els)"
    by (rule nodes_loop_ids) simp
  from e have c: "\<forall>d\<in>set (edges els). edge_checked up m d"
    by (rule edges_loop_checked) simp
  show ?thesis
  proof
    fix d assume "d \<in> set (edges els)"
    with c have "edge_checked up m d" by (rule bspec)
    then have s: "ed_source d \<in> ran m" and t: "ed_target d \<in> ran m"
      and l: "\<exists>t. ed_label d = up t"
      by (simp_all add: edge_checked_def)
    from s r have "\<exists>n\<in>set (nodes els). nd_id n = ed_source d" by (rule id_has_node)
    moreover from t r have "\<exists>n\<in>set (nodes els). nd_id n = ed_target d" by (rule id_has_node)
    ultimately show "(\<exists>n\<in>set (nodes els). nd_id n = ed_source d)
           \<and> (\<exists>n\<in>set (nodes els). nd_id n = ed_target d)
           \<and> (\<exists>t. ed_label d = up t)"
      using l by simp
  qed
qed

lemma render_Completed:
  assumes "render up g s4 = (Completed, s)"
  shows "\<exists>els sty est. format_for_st_link_analysis up g = Inr (els, sty, est)
      \<and> calls s = calls s4 \<and> StLinkAnalysis els sty est \<in> set (shown s)"
proof (cases "format_for_st_link_analysis up g")
  case (Inl e)
  with assms show ?thesis by (simp add: render_def Let_def)
next
  case (Inr r)
  obtain els sty est where r: "r = (els, sty, est)" by (cases r)
  from Inr r have f: "format_for_st_link_analysis up g = Inr (els, sty, est)" by simp
  from assms render_readable [OF f, of s4] have "calls s = calls s4"
    and "StLinkAnalysis els sty est \<in> set (shown s)" by auto
  with f show ?thesis by blast
qed

lemma step3_Inr:
  assumes "step3 doc r3 final s2 = (Inr fe, s3)"
  shows "r3 = Parsed fe \<or> (\<exists>f. r3 = Failed f) \<and> fe = JList []"
proof (cases "names_of final")
  case (Inl e)
  with assms show ?thesis by (simp add: step3_def)
next
  case (Inr names)
  from step3_calls [OF Inr, of doc r3 s2] assms show ?thesis
    by (cases r3) auto
qed

text \<open>
  Claim C4, as amended. In every run that completes, the graph that is serialised for the
  call of step 4 holds the relationships exactly as step 3 returned them (an empty list
  when that call failed). It is the projection of that same graph, shown by the widget,
  that keeps only checked relationships: each of its edges has for source and for target
  the id of one of its nodes, and for label the upper case of a text.
\<close>

theorem relationships_checked_by_projection:
  assumes run: "pipeline up doc r1 r2 r3 r4 = (Completed, s)"
  shows "\<exists>final_nodes final_edges els sty est.
     Step4Prompt doc (llm_json_output_of final_nodes final_edges) \<in> set (calls s)
     \<and> (r3 = Parsed final_edges \<or> (\<exists>f. r3 = Failed f) \<and> final_edges = JList [])
     \<and> format_for_st_link_analysis up (llm_json_output_of final_nodes final_edges) = Inr (els, sty, est)
     \<and> StLinkAnalysis els sty est \<in> set (shown s)
     \<and> (\<forall>d\<in>set (edges els).
           (\<exists>n\<in>set (nodes els). nd_id n = ed_source d)
           \<and> (\<exists>n\<in>set (nodes els). nd_id n = ed_target d)
           \<and> (\<exists>t. ed_label d = up t))"
proof -
  obtain x1 s1 where one: "step1 doc r1 \<lparr>calls = [], shown = []\<rparr> = (x1, s1)"
    by (cases "step1 doc r1 \<lparr>calls = [], shown = []\<rparr>")
  from run one obtain nodes_list where x1: "x1 = Some nodes_list"
    by (cases x1) (simp_all add: pipeline_def)
  obtain x2 s2 where two: "step2 doc r2 nodes_list s1 = (x2, s2)"
    by (cases "step2 doc r2 nodes_list s1")
  from run one x1 two obtain final where x2: "x2 = Inr final"
    by (cases x2) (simp_all add: pipeline_def)
  obtain x3 s3 where three: "step3 doc r3 final s2 = (x3, s3)"
    by (cases "step3 doc r3 final s2")
  from run one x1 two x2 three obtain fe where x3: "x3 = Inr fe"
    by (cases x3) (simp_all add: pipeline_def)
  define g where "g = llm_json_output_of final fe"
  define s4 where "s4 = snd (step4 doc r4 g s3)"
  have p: "pipeline up doc r1 r2 r3 r4 =
     (case fst (step4 doc r4 g s3) of
        Inl e \<Rightarrow> (Crashed e, snd (step4 doc r4 g s3))
      | Inr u \<Rightarrow> render up g (snd (step4 doc r4 g s3)))"
    unfolding g_def
    by (rule pipeline_from_step3 [OF one [unfolded x1] two [unfolded x2] three [unfolded x3]])
  from run p have r: "render up g s4 = (Completed, s)"
    by (cases "fst (step4 doc r4 g s3)") (simp_all add: s4_def)
  from render_Completed [OF r] obtain els sty est where
    f: "format_for_st_link_analysis up g = Inr (els, sty, est)"
    and c: "calls s = calls s4" and l: "StLinkAnalysis els sty est \<in> set (shown s)"
    by blast
  have "calls s4 = calls s3 @ [Step4Prompt doc g]"
    unfolding s4_def by (rule step4_calls)
  with c have p4: "Step4Prompt doc g \<in> set (calls s)" by simp
  have v: "r3 = Parsed fe \<or> (\<exists>f. r3 = Failed f) \<and> fe = JList []"
    by (rule step3_Inr [OF three [unfolded x3]])
  note k = format_checked [OF f]
  from p4 [unfolded g_def] v f [unfolded g_def] l k show ?thesis by blast
qed

text \<open>A run that completes, with a relationship to a name that is no entity.\<close>

lemma alice_run:
  "pipeline ascii_upper ''Alice met Bob.'' (Parsed (JList [person ''Alice'']))
      (\<lambda>j. Parsed (JObj [(''personality'', JStr ''kind'')]))
      (Parsed (JList [JObj [(''source'', JStr ''Alice''), (''label'', JStr ''met''),
                            (''target'', JStr ''Bob'')],
                      JObj [(''source'', JStr ''Alice''), (''label'', JStr ''knows''),
                            (''target'', JStr ''Alice'')]]))
      scores
   = (Completed,
      \<lparr>calls =
         [Step1Prompt ''Alice met Bob.'',
          Step2Prompt (JStr ''Alice'') ''Alice met Bob.'',
          Step3Prompt [JStr ''Alice''] ''Alice met Bob.'',
          Step4Prompt ''Alice met Bob.''
            (JObj [(''nodes'', JList
                      [JObj [(''name'', JStr ''Alice''), (''label'', JStr ''PERSON''),
                             (''personality'', JStr ''kind'')]]),
                   (''edges'', JList
                      [JObj [(''source'', JStr ''Alice''), (''label'', JStr ''met''),
                             (''target'', JStr ''Bob'')],
                       JObj [(''source'', JStr ''Alice''), (''label'', JStr ''knows''),
                             (''target'', JStr ''Alice'')]])])],
       shown =
         [StMarkdown ''---'',
          StSubheader ''Extraction Quality Analysis'',
          StMetric ''Correctness Score'' (JInt 9),
          StMetric ''Completeness Score'' (JInt 8),
          StMarkdown ''---'',
          StSuccess ''Graph generation complete! 1 nodes, 1 edges.'',
          StLinkAnalysis
            \<lparr>nodes =
               [\<lparr>nd_id = 1, nd_label = ''PERSON'', nd_name = JStr ''Alice'',
                 nd_personality = Some (JStr ''kind'')\<rparr>],
             edges = [\<lparr>ed_id = ''e1'', ed_label = ''KNOWS'', ed_source = 1, ed_target = 1\<rparr>]\<rparr>
            node_styles {edge_style_of ''KNOWS''}]\<rparr>)"
  by (simp add: run_defs person_def scores_def)

text \<open>The theorem of C4 on that run.\<close>

theorem relationships_checked_by_projection_witness:
  "\<exists>s. pipeline ascii_upper ''Alice met Bob.'' (Parsed (JList [person ''Alice'']))
      (\<lambda>j. Parsed (JObj [(''personality'', JStr ''kind'')]))
      (Parsed (JList [JObj [(''source'', JStr ''Alice''), (''label'', JStr ''met''),
                            (''target'', JStr ''Bob'')],
                      JObj [(''source'', JStr ''Alice''), (''label'', JStr ''knows''),
                            (''target'', JStr ''Alice'')]]))
      scores = (Completed, s)
   \<and> (\<exists>final_nodes final_edges els sty est.
     Step4Prompt ''Alice met Bob.'' (llm_json_output_of final_nodes final_edges) \<in> set (calls s)
     \<and> (Parsed (JList [JObj [(''source'', JStr ''Alice''), (''label'', JStr ''met''),
                            (''target'', JStr ''Bob'')],
                      JObj [(''source'', JStr ''Alice''), (''label'', JStr ''knows''),
                            (''target'', JStr ''Alice'')]]) = Parsed final_edges
         \<or> (\<exists>f. Parsed (JList [JObj [(''source'', JStr ''Alice''), (''label'', JStr ''met''),
                            (''target'', JStr ''Bob'')],
                      JObj [(''source'', JStr ''Alice''), (''label'', JStr ''knows''),
                            (''target'', JStr ''Alice'')]]) = Failed f) \<and> final_edges = JList [])
     \<and> format_for_st_link_analysis ascii_upper (llm_json_output_of final_nodes final_edges)
           = Inr (els, sty, est)
     \<and> StLinkAnalysis els sty est \<in> set (shown s)
     \<and> (\<forall>d\<in>set (edges els).
           (\<exists>n\<in>set (nodes els). nd_id n = ed_source d)
           \<and> (\<exists>n\<in>set (nodes els). nd_id n = ed_target d)
           \<and> (\<exists>t. ed_label d = ascii_upper t)))"
proof -
  obtain s where r: "pipeline ascii_upper ''Alice met Bob.'' (Parsed (JList [person ''Alice'']))
      (\<lambda>j. Parsed (JObj [(''personality'', JStr ''kind'')]))
      (Parsed (JList [JObj [(''source'', JStr ''Alice''), (''label'', JStr ''met''),
                            (''target'', JStr ''Bob'')],
                      JObj [(''source'', JStr ''Alice''), (''label'', JStr ''knows''),
                            (''target'', JStr ''Alice'')]]))
      scores = (Completed, s)"
    by (rule that [OF alice_run])
  note c = relationships_checked_by_projection [OF r]
  from r c show ?thesis by (intro exI [of _ s] conjI)
qed

end
